theory Spec2Isabelle
  imports Main "HOL-Library.AList" "HOL-Library.Sublist" "HOL-Library.Product_Lexorder"
begin

section \<open>Python values\<close>

text \<open>
  JSON-like Python values as they occur in tool arguments, history entries and search
  result items. Numbers are kept as integers; no function below does arithmetic on them.
  A Python \<open>dict\<close> with string keys is an association list in insertion order;
  a Python \<open>str\<close> is a \<open>string\<close>, one \<open>char\<close> per code point.
\<close>

datatype jval =
    JNull
  | JBool bool
  | JNum int
  | JStr string
  | JArr "jval list"
  | JObj "(string \<times> jval) list"

type_synonym pydict = "(string \<times> jval) list"

text \<open>Python truthiness (\<open>bool(v)\<close>, \<open>if v:\<close>, \<open>not v\<close>).\<close>

fun truthy :: "jval \<Rightarrow> bool" where
  "truthy JNull = False"
| "truthy (JBool b) = b"
| "truthy (JNum n) = (n \<noteq> 0)"
| "truthy (JStr s) = (s \<noteq> [])"
| "truthy (JArr xs) = (xs \<noteq> [])"
| "truthy (JObj kvs) = (kvs \<noteq> [])"

text \<open>\<open>d.get(k)\<close> and \<open>d.get(k, default)\<close>.\<close>

definition dict_get :: "pydict \<Rightarrow> string \<Rightarrow> jval option" where
  "dict_get d k = map_of d k"

definition dict_get_default :: "pydict \<Rightarrow> string \<Rightarrow> jval \<Rightarrow> jval" where
  "dict_get_default d k dflt = (case map_of d k of None \<Rightarrow> dflt | Some v \<Rightarrow> v)"

text \<open>Exceptions are values; the payload is the key or a short message.\<close>

datatype py_error =
    KeyError string
  | TypeError string
  | ValueError string
  | AttributeError string
  | RuntimeError string
  | Exception string

text \<open>\<open>str(n)\<close> for an integer: the decimal digits, with a minus sign if negative.\<close>

definition digit_char :: "nat \<Rightarrow> char" where
  "digit_char d = char_of (48 + d)"

function str_of_nat :: "nat \<Rightarrow> string" where
  "str_of_nat n = (if n < 10 then [digit_char n] else str_of_nat (n div 10) @ [digit_char (n mod 10)])"
  by pat_completeness auto
termination
  by (relation "measure (\<lambda>n. n)") auto

declare str_of_nat.simps [simp del]

definition str_of_int :: "int \<Rightarrow> string" where
  "str_of_int i = (if i < 0 then CHR ''-'' # str_of_nat (nat (- i)) else str_of_nat (nat i))"

section \<open>Agent state (data\_models/agent\_models.py, card\_models.py, chat\_models.py)\<close>

datatype card_status = InProgress | Completed

type_synonym addr = nat

text \<open>
  The kind-specific content of a card. The search result list of a
  \<open>WebSearchResultCard\<close> is a list of dict objects; the list holds their addresses in
  the object heap (see the tracing section), \<open>None\<close> until the search has completed.
\<close>

datatype card_body =
    UserRequirementBody string
  | WebSearchResultBody "addr list option"
  | WebpageBody "string option" "string option"
  | NoteBody string "string option"

record card =
  card_id :: string
  status :: card_status
  card_ref_implicit :: "string list"
  card_ref_explicit :: "string list"
  body :: card_body

text \<open>A display message: its \<open>chat_type\<close> and its \<open>chat_content\<close> dict.\<close>

record chat_message =
  chat_type :: string
  chat_content :: pydict

record agent_state =
  chat_list :: "chat_message list"
  context_list :: "pydict list"
  card_dict :: "(string \<times> card) list"
  latest_card_id :: "string option"
  is_running :: bool
  is_interrupted :: bool
  final_result_generated :: bool
  final_result_card_id :: "string option"
  raw_info_tool_calls_since_last_note :: int
  note_calls_since_last_summary :: int

record tool_result =
  compact :: string
  full :: string

section \<open>Workflow policy (agents/baseAgent.py)\<close>

definition RAW_INFO_COLLECTION_TOOLS :: "string set" where
  "RAW_INFO_COLLECTION_TOOLS = {''search_web'', ''scrape_webpage''}"

definition MAX_RAW_INFO_TOOL_CALLS_BEFORE_NOTE :: int where
  "MAX_RAW_INFO_TOOL_CALLS_BEFORE_NOTE = 3"

definition MAX_NOTE_CALLS_BEFORE_SUMMARY :: int where
  "MAX_NOTE_CALLS_BEFORE_SUMMARY = 3"

definition raw_info_error_msg :: "int \<Rightarrow> string" where
  "raw_info_error_msg n =
     ''Error: You have made '' @ str_of_int n @ '' raw information '' @
     ''collection tool calls (search_web/scrape_webpage) without creating a note. '' @
     ''Please call 'create_note' to record the findings before making more '' @
     ''raw info collection tool calls.''"

definition note_error_msg :: "int \<Rightarrow> string" where
  "note_error_msg n =
     ''Error: You have made '' @ str_of_int n @ '' create_note calls '' @
     ''with is_progress_summary_note=false without creating a progress summary note. '' @
     ''Please call 'create_note' with is_progress_summary_note=true to summarize '' @
     ''the current progress.''"

text \<open>
  \<open>_check_note_creation_enforcement\<close>: \<open>Some\<close> error message when the policy is
  violated, \<open>None\<close> otherwise. It reads the state and writes nothing.
\<close>

definition check_note_creation_enforcement ::
  "agent_state \<Rightarrow> string \<Rightarrow> pydict \<Rightarrow> string option" where
  "check_note_creation_enforcement st function_name function_args =
     (if function_name \<in> RAW_INFO_COLLECTION_TOOLS \<and>
         raw_info_tool_calls_since_last_note st \<ge> MAX_RAW_INFO_TOOL_CALLS_BEFORE_NOTE
      then Some (raw_info_error_msg (raw_info_tool_calls_since_last_note st))
      else if function_name = ''create_note'' \<and>
         \<not> truthy (dict_get_default function_args ''is_progress_summary_note'' (JBool False)) \<and>
         note_calls_since_last_summary st \<ge> MAX_NOTE_CALLS_BEFORE_SUMMARY
      then Some (note_error_msg (note_calls_since_last_summary st))
      else None)"

text \<open>\<open>_update_note_creation_counters\<close>, called after a tool has run.\<close>

definition update_note_creation_counters ::
  "agent_state \<Rightarrow> string \<Rightarrow> pydict \<Rightarrow> agent_state" where
  "update_note_creation_counters st function_name function_args =
     (if function_name = ''create_note'' then
        (if truthy (dict_get_default function_args ''is_progress_summary_note'' (JBool False))
         then st\<lparr>raw_info_tool_calls_since_last_note := 0, note_calls_since_last_summary := 0\<rparr>
         else st\<lparr>raw_info_tool_calls_since_last_note := 0,
                 note_calls_since_last_summary := note_calls_since_last_summary st + 1\<rparr>)
      else if function_name \<in> RAW_INFO_COLLECTION_TOOLS then
        st\<lparr>raw_info_tool_calls_since_last_note := raw_info_tool_calls_since_last_note st + 1\<rparr>
      else st)"

text \<open>
  \<open>_add_tool_result\<close>: the history entry of a tool result keeps both renderings;
  a \<open>create_note\<close> entry also records whether the note was a progress summary.
\<close>

definition add_tool_result ::
  "string \<Rightarrow> string \<Rightarrow> tool_result \<Rightarrow> jval \<Rightarrow> agent_state \<Rightarrow> agent_state" where
  "add_tool_result tool_call_id function_name content is_progress_summary_note st =
     (let tool_result =
            [(''tool_call_id'', JStr tool_call_id),
             (''role'', JStr ''tool''),
             (''name'', JStr function_name),
             (''content'', JStr (full content)),
             (''_compact_content'', JStr (compact content))] @
            (if function_name = ''create_note''
             then [(''_is_progress_summary_note'', is_progress_summary_note)] else [])
      in st\<lparr>context_list := context_list st @ [tool_result]\<rparr>)"

text \<open>
  What \<open>_execute_single_tool_call\<close> needs from the agent instance and its libraries:
  \<open>json.loads\<close> (\<open>None\<close> is \<open>JSONDecodeError\<close>), the schema validator
  \<open>_validate_tool_arguments\<close>, and the registered tool functions. A tool function, run
  under \<open>_monitor_task_with_interrupt\<close>, returns a \<open>ToolResult\<close> or raises, and
  may change the session state.
\<close>

record tool_call =
  tc_id :: string
  tc_name :: string
  tc_arguments :: string

type_synonym tool_function = "pydict \<Rightarrow> agent_state \<Rightarrow> (py_error + tool_result) \<times> agent_state"

record agent =
  json_loads :: "string \<Rightarrow> jval option"
  validate_tool_arguments :: "string \<Rightarrow> pydict \<Rightarrow> string option"
  available_tool_functions :: "string \<Rightarrow> tool_function option"

text \<open>
  \<open>_parse_tool_arguments\<close>: a payload that is not JSON becomes the dict
  \<open>{"error": ...}\<close>; any JSON value is returned as it is.
\<close>

definition parse_tool_arguments :: "agent \<Rightarrow> tool_call \<Rightarrow> jval" where
  "parse_tool_arguments ag tc =
     (case json_loads ag (tc_arguments tc) of
        None \<Rightarrow> JObj [(''error'', JStr ''Failed to parse tool arguments'')]
      | Some v \<Rightarrow> v)"

text \<open>
  \<open>_execute_single_tool_call\<close>. A payload that is JSON but not an object makes one of
  the later dict operations raise; every other failure before the tool runs is logged as an
  ordinary tool result and the call returns normally.
\<close>

definition execute_single_tool_call ::
  "agent \<Rightarrow> tool_call \<Rightarrow> agent_state \<Rightarrow> (py_error + unit) \<times> agent_state" where
  "execute_single_tool_call ag tc st =
     (let function_name = tc_name tc in
      case parse_tool_arguments ag tc of
        JObj function_args \<Rightarrow>
          (case dict_get function_args ''error'' of
             Some e \<Rightarrow>
               (case e of
                  JStr error_msg \<Rightarrow>
                    (Inr (), add_tool_result (tc_id tc) function_name
                               \<lparr>compact = error_msg, full = error_msg\<rparr> (JBool False) st)
                | _ \<Rightarrow> (Inl (TypeError ''error message is not a string''), st))
           | None \<Rightarrow>
          (case available_tool_functions ag function_name of
             None \<Rightarrow>
               (let error_msg = ''Unknown tool: '' @ function_name in
                (Inr (), add_tool_result (tc_id tc) function_name
                           \<lparr>compact = error_msg, full = error_msg\<rparr> (JBool False) st))
           | Some function_to_call \<Rightarrow>
          (case validate_tool_arguments ag function_name function_args of
             Some validation_error \<Rightarrow>
               (Inr (), add_tool_result (tc_id tc) function_name
                          \<lparr>compact = validation_error, full = validation_error\<rparr> (JBool False) st)
           | None \<Rightarrow>
          (case check_note_creation_enforcement st function_name function_args of
             Some note_enforcement_error \<Rightarrow>
               (Inr (), add_tool_result (tc_id tc) function_name
                          \<lparr>compact = note_enforcement_error, full = note_enforcement_error\<rparr>
                          (JBool False) st)
           | None \<Rightarrow>
          (case function_to_call function_args st of
             (Inl e, st') \<Rightarrow> (Inl (Exception (''Unexpected error calling '' @ function_name)), st')
           | (Inr tool_execution_task_result, st') \<Rightarrow>
               (let is_progress_summary =
                      dict_get_default function_args ''is_progress_summary_note'' (JBool False);
                    st'' = add_tool_result (tc_id tc) function_name tool_execution_task_result
                             is_progress_summary st'
                in (Inr (), update_note_creation_counters st'' function_name function_args)))))))
      | _ \<Rightarrow> (Inl (TypeError ''tool arguments are not a JSON object''), st))"

text \<open>The tool-call loop of \<open>execute_turn\<close>: the requested actions run in order; an exception ends the loop.\<close>

fun execute_tool_calls :: "agent \<Rightarrow> tool_call list \<Rightarrow> agent_state \<Rightarrow> (py_error + unit) \<times> agent_state" where
  "execute_tool_calls ag [] st = (Inr (), st)"
| "execute_tool_calls ag (tc # tcs) st =
     (case execute_single_tool_call ag tc st of
        (Inl e, st') \<Rightarrow> (Inl e, st')
      | (Inr _, st') \<Rightarrow> execute_tool_calls ag tcs st')"

subsection \<open>Example session\<close>

text \<open>
  The state of a freshly created agent (\<open>create_project\<close>), and an agent whose
  \<open>search_web\<close> and \<open>create_note\<close> tools return at once.
\<close>

definition initial_agent_state :: agent_state where
  "initial_agent_state =
     \<lparr>chat_list = [], context_list = [], card_dict = [], latest_card_id = None,
      is_running = False, is_interrupted = False, final_result_generated = False,
      final_result_card_id = None, raw_info_tool_calls_since_last_note = 0,
      note_calls_since_last_summary = 0\<rparr>"

definition example_agent :: agent where
  "example_agent =
     \<lparr>json_loads = (\<lambda>s. if s = ''{}'' then Some (JObj []) else None),
      validate_tool_arguments = (\<lambda>_ _. None),
      available_tool_functions =
        (\<lambda>n. if n = ''search_web'' \<or> n = ''create_note''
             then Some (\<lambda>_ st. (Inr \<lparr>compact = ''c'', full = ''f''\<rparr>, st)) else None)\<rparr>"

definition example_call :: "string \<Rightarrow> tool_call" where
  "example_call n = \<lparr>tc_id = ''call'', tc_name = n, tc_arguments = ''{}''\<rparr>"

section \<open>Generation view (agents/baseAgent.py)\<close>

text \<open>\<open>d[k]\<close>: a missing key raises \<open>KeyError\<close>.\<close>

definition dict_item :: "pydict \<Rightarrow> string \<Rightarrow> py_error + jval" where
  "dict_item d k = (case map_of d k of None \<Rightarrow> Inl (KeyError k) | Some v \<Rightarrow> Inr v)"

definition is_tool_msg :: "pydict \<Rightarrow> bool" where
  "is_tool_msg msg = (dict_get msg ''role'' = Some (JStr ''tool''))"

text \<open>
  The first loop of \<open>_prepare_messages_for_llm\<close>: the index of the last
  \<open>create_note\<close> result and of the last one flagged as a progress summary, \<open>-1\<close>
  when there is none. \<open>i\<close> is the index of the head of the remaining list.
\<close>

fun find_last_indices :: "pydict list \<Rightarrow> int \<Rightarrow> int \<times> int \<Rightarrow> int \<times> int" where
  "find_last_indices [] i idx = idx"
| "find_last_indices (msg # msgs) i (last_create_note_idx, last_progress_summary_idx) =
     (if is_tool_msg msg \<and> dict_get msg ''name'' = Some (JStr ''create_note'') then
        find_last_indices msgs (i + 1)
          (i, if truthy (dict_get_default msg ''_is_progress_summary_note'' (JBool False))
              then i else last_progress_summary_idx)
      else find_last_indices msgs (i + 1) (last_create_note_idx, last_progress_summary_idx))"

text \<open>
  The decision of the second loop for the tool result \<open>msg\<close> at index \<open>i\<close>.
  Membership of a list or a dict in a set of strings raises \<open>TypeError\<close> (unhashable).
\<close>

definition use_compact :: "int \<times> int \<Rightarrow> int \<Rightarrow> pydict \<Rightarrow> py_error + bool" where
  "use_compact idx i msg =
     (let last_create_note_idx = fst idx; last_progress_summary_idx = snd idx;
          tool_name = dict_get msg ''name''
      in case tool_name of
           Some (JArr _) \<Rightarrow> Inl (TypeError ''unhashable type'')
         | Some (JObj _) \<Rightarrow> Inl (TypeError ''unhashable type'')
         | _ \<Rightarrow>
           if (case tool_name of Some (JStr n) \<Rightarrow> n \<in> RAW_INFO_COLLECTION_TOOLS | _ \<Rightarrow> False)
           then Inr (last_create_note_idx \<noteq> - 1 \<and> i < last_create_note_idx)
           else if tool_name = Some (JStr ''create_note'')
           then Inr (last_progress_summary_idx \<noteq> - 1 \<and> i < last_progress_summary_idx)
           else Inr False)"

text \<open>One iteration of the second loop: the entry of the view for \<open>msg\<close>.\<close>

definition clean_message :: "int \<times> int \<Rightarrow> int \<Rightarrow> pydict \<Rightarrow> py_error + pydict" where
  "clean_message idx i msg =
     (if is_tool_msg msg then
        (case use_compact idx i msg of
           Inl e \<Rightarrow> Inl e
         | Inr c \<Rightarrow>
        (case dict_item msg ''tool_call_id'' of
           Inl e \<Rightarrow> Inl e
         | Inr tool_call_id \<Rightarrow>
        (case dict_item msg ''role'' of
           Inl e \<Rightarrow> Inl e
         | Inr role \<Rightarrow>
        (case dict_item msg ''name'' of
           Inl e \<Rightarrow> Inl e
         | Inr name \<Rightarrow>
        (case dict_item msg (if c then ''_compact_content'' else ''content'') of
           Inl e \<Rightarrow> Inl e
         | Inr content \<Rightarrow>
             Inr [(''tool_call_id'', tool_call_id), (''role'', role), (''name'', name),
                  (''content'', content)])))))
      else Inr msg)"

fun build_messages :: "int \<times> int \<Rightarrow> int \<Rightarrow> pydict list \<Rightarrow> py_error + pydict list" where
  "build_messages idx i [] = Inr []"
| "build_messages idx i (msg # msgs) =
     (case clean_message idx i msg of
        Inl e \<Rightarrow> Inl e
      | Inr m \<Rightarrow>
          (case build_messages idx (i + 1) msgs of
             Inl e \<Rightarrow> Inl e
           | Inr ms \<Rightarrow> Inr (m # ms)))"

text \<open>
  \<open>_prepare_messages_for_llm\<close>: the method assigns to no attribute of the agent state,
  so the state it leaves is the state it was given.
\<close>

definition prepare_messages_for_llm ::
  "agent_state \<Rightarrow> (py_error + pydict list) \<times> agent_state" where
  "prepare_messages_for_llm st =
     (build_messages (find_last_indices (context_list st) 0 (- 1, - 1)) 0 (context_list st), st)"

subsection \<open>The claims' vocabulary for history entries\<close>

definition is_raw_result :: "pydict \<Rightarrow> bool" where
  "is_raw_result m =
     (is_tool_msg m \<and> (dict_get m ''name'' = Some (JStr ''search_web'') \<or>
                       dict_get m ''name'' = Some (JStr ''scrape_webpage'')))"

definition is_create_note_result :: "pydict \<Rightarrow> bool" where
  "is_create_note_result m = (is_tool_msg m \<and> dict_get m ''name'' = Some (JStr ''create_note''))"

definition is_summary_result :: "pydict \<Rightarrow> bool" where
  "is_summary_result m =
     (is_create_note_result m \<and>
      truthy (dict_get_default m ''_is_progress_summary_note'' (JBool False)))"

text \<open>Entry \<open>i\<close> occurs before the most recent entry satisfying \<open>P\<close>.\<close>

definition occurs_before_last :: "(pydict \<Rightarrow> bool) \<Rightarrow> pydict list \<Rightarrow> nat \<Rightarrow> bool" where
  "occurs_before_last P ctx i = (\<exists>j \<in> {i<..<length ctx}. P (ctx ! j))"

text \<open>The index of the most recent entry satisfying \<open>P\<close>, if there is one.\<close>

fun last_index :: "('a \<Rightarrow> bool) \<Rightarrow> 'a list \<Rightarrow> nat option" where
  "last_index P [] = None"
| "last_index P (x # xs) =
     (case last_index P xs of
        Some j \<Rightarrow> Some (Suc j)
      | None \<Rightarrow> if P x then Some 0 else None)"

text \<open>
  A tool result as \<open>_add_tool_result\<close> writes it: the four keys the view reads are
  present and the name is a string.
\<close>

definition wf_tool_msg :: "pydict \<Rightarrow> bool" where
  "wf_tool_msg m =
     ((case dict_get m ''name'' of Some (JStr _) \<Rightarrow> True | _ \<Rightarrow> False) \<and>
      dict_get m ''tool_call_id'' \<noteq> None \<and> dict_get m ''content'' \<noteq> None \<and>
      dict_get m ''_compact_content'' \<noteq> None)"

definition wf_history :: "pydict list \<Rightarrow> bool" where
  "wf_history ctx = (\<forall>m \<in> set ctx. is_tool_msg m \<longrightarrow> wf_tool_msg m)"

text \<open>
  What the claims call a rendering: the view's entry \<open>v\<close> for the tool result \<open>m\<close>
  has exactly the four keys of \<open>clean_msg\<close>, the first three copied from \<open>m\<close>, and as
  content the value \<open>m\<close> stores under \<open>key\<close>: \<open>content\<close> for the full rendering,
  \<open>_compact_content\<close> for the compact one.
\<close>

definition renders :: "pydict \<Rightarrow> string \<Rightarrow> pydict \<Rightarrow> bool" where
  "renders v key m =
     (map fst v = [''tool_call_id'', ''role'', ''name'', ''content''] \<and>
      dict_get v ''tool_call_id'' = dict_get m ''tool_call_id'' \<and>
      dict_get v ''role'' = dict_get m ''role'' \<and>
      dict_get v ''name'' = dict_get m ''name'' \<and>
      dict_get v ''content'' = dict_get m key)"

definition rendered_full :: "pydict \<Rightarrow> pydict \<Rightarrow> bool" where
  "rendered_full v m = renders v ''content'' m"

definition rendered_compact :: "pydict \<Rightarrow> pydict \<Rightarrow> bool" where
  "rendered_compact v m = renders v ''_compact_content'' m"

text \<open>
  The rule of the specification: a raw-acquisition result is compact iff it occurs before
  the most recent synthesis result, a synthesis result iff it occurs before the most recent
  summary synthesis result, and every other result is full.
\<close>

definition spec_compact :: "pydict list \<Rightarrow> nat \<Rightarrow> bool" where
  "spec_compact ctx i =
     (if is_raw_result (ctx ! i) then occurs_before_last is_create_note_result ctx i
      else if is_create_note_result (ctx ! i) then occurs_before_last is_summary_result ctx i
      else False)"

subsection \<open>Example histories\<close>

text \<open>
  A history as the turn loop writes it: the system and user entries, then the results of
  two searches, a plain note, a summary note, a third search and \<open>finish_turn\<close>.
\<close>

definition example_history :: agent_state where
  "example_history =
     add_tool_result ''c6'' ''finish_turn'' \<lparr>compact = ''done'', full = ''done''\<rparr> (JBool False)
    (add_tool_result ''c5'' ''search_web'' \<lparr>compact = ''s3'', full = ''S3''\<rparr> (JBool False)
    (add_tool_result ''c4'' ''create_note'' \<lparr>compact = ''n2'', full = ''N2''\<rparr> (JBool True)
    (add_tool_result ''c3'' ''scrape_webpage'' \<lparr>compact = ''s2'', full = ''S2''\<rparr> (JBool False)
    (add_tool_result ''c2'' ''create_note'' \<lparr>compact = ''n1'', full = ''N1''\<rparr> (JBool False)
    (add_tool_result ''c1'' ''search_web'' \<lparr>compact = ''s1'', full = ''S1''\<rparr> (JBool False)
    (initial_agent_state\<lparr>context_list :=
       [[(''role'', JStr ''system''), (''content'', JStr ''sys'')],
        [(''role'', JStr ''user''), (''content'', JStr ''question'')]]\<rparr>))))))"

definition view_entry :: "string \<Rightarrow> string \<Rightarrow> string \<Rightarrow> pydict" where
  "view_entry tool_call_id name content =
     [(''tool_call_id'', JStr tool_call_id), (''role'', JStr ''tool''), (''name'', JStr name),
      (''content'', JStr content)]"

definition example_history_view :: "pydict list" where
  "example_history_view =
     [[(''role'', JStr ''system''), (''content'', JStr ''sys'')],
      [(''role'', JStr ''user''), (''content'', JStr ''question'')],
      view_entry ''c1'' ''search_web'' ''s1'',
      view_entry ''c2'' ''create_note'' ''n1'',
      view_entry ''c3'' ''scrape_webpage'' ''s2'',
      view_entry ''c4'' ''create_note'' ''N2'',
      view_entry ''c5'' ''search_web'' ''S3'',
      view_entry ''c6'' ''finish_turn'' ''done'']"

text \<open>Two notes, neither a summary.\<close>

definition example_two_notes :: agent_state where
  "example_two_notes =
     add_tool_result ''c2'' ''create_note'' \<lparr>compact = ''n2'', full = ''N2''\<rparr> (JBool False)
    (add_tool_result ''c1'' ''create_note'' \<lparr>compact = ''n1'', full = ''N1''\<rparr> (JBool False)
     initial_agent_state)"

definition example_two_notes_view :: "pydict list" where
  "example_two_notes_view =
     [view_entry ''c1'' ''create_note'' ''N1'', view_entry ''c2'' ''create_note'' ''N2'']"

section \<open>Artifact store (data\_models/project\_models.py, agents/baseAgent.py)\<close>

text \<open>
  \<open>card_dict\<close> is a Python dict: an association list with distinct keys in insertion
  order. \<open>d[k] = v\<close> is \<open>AList.update\<close> (replace in place, or append),
  \<open>del d[k]\<close> is \<open>AList.delete\<close>, and \<open>len(d)\<close> is the length of the list.
\<close>

definition generate_card_id :: "agent_state \<Rightarrow> string" where
  "generate_card_id st = str_of_nat (length (card_dict st) + 1)"

definition add_info_card :: "card \<Rightarrow> agent_state \<Rightarrow> agent_state" where
  "add_info_card c st =
     st\<lparr>card_dict := AList.update (card_id c) c (card_dict st),
        latest_card_id := Some (card_id c)\<rparr>"

text \<open>
  \<open>int(k)\<close> on a card id. The model reads a non-empty string of ASCII digits, which is
  what \<open>str\<close> of a natural number produces, and raises \<open>ValueError\<close> on every other
  string (Python also accepts a sign, surrounding blanks and underscores; no card id
  generated by this program has them).
\<close>

definition digit_value :: "char \<Rightarrow> nat" where
  "digit_value c = of_char c - 48"

definition is_digit :: "char \<Rightarrow> bool" where
  "is_digit c = (48 \<le> (of_char c :: nat) \<and> (of_char c :: nat) \<le> 57)"

definition nat_of_digits :: "string \<Rightarrow> nat" where
  "nat_of_digits s = foldl (\<lambda>acc c. 10 * acc + digit_value c) 0 s"

definition py_int :: "string \<Rightarrow> py_error + nat" where
  "py_int s = (if s \<noteq> [] \<and> list_all is_digit s then Inr (nat_of_digits s)
               else Inl (ValueError ''invalid literal for int()''))"

text \<open>\<open>max(int(k) for k in keys)\<close> on a non-empty dict: the first key that is not a number raises.\<close>

fun max_int_keys :: "string list \<Rightarrow> py_error + nat" where
  "max_int_keys [] = Inl (ValueError ''max() arg is an empty sequence'')"
| "max_int_keys [k] = py_int k"
| "max_int_keys (k # ks) =
     (case py_int k of
        Inl e \<Rightarrow> Inl e
      | Inr n \<Rightarrow> (case max_int_keys ks of Inl e \<Rightarrow> Inl e | Inr m \<Rightarrow> Inr (max n m)))"

text \<open>Step 1 of \<open>_cleanup_interrupted_states\<close>: in-progress tool messages become cancelled.\<close>

definition cancel_tool_messages :: "chat_message list \<Rightarrow> chat_message list" where
  "cancel_tool_messages msgs =
     map (\<lambda>message.
            if chat_type message = ''tool_message'' \<and>
               dict_get (chat_content message) ''status'' = Some (JStr ''in_progress'')
            then message\<lparr>chat_content :=
                   AList.update ''status'' (JStr ''cancelled'') (chat_content message)\<rparr>
            else message) msgs"

text \<open>
  Step 4: walking the display list from its end, the first progress summary message is
  marked completed and the walk stops. The argument is the reversed list.
\<close>

fun complete_first_progress_summary :: "chat_message list \<Rightarrow> chat_message list" where
  "complete_first_progress_summary [] = []"
| "complete_first_progress_summary (message # rest) =
     (if chat_type message = ''progress_summary_message''
      then message\<lparr>chat_content :=
             AList.update ''status'' (JStr ''completed'') (chat_content message)\<rparr> # rest
      else message # complete_first_progress_summary rest)"

definition interrupted_msg :: chat_message where
  "interrupted_msg =
     \<lparr>chat_type = ''progress_summary_message'',
      chat_content = [(''progress_summary'', JStr ''Interrupted''), (''status'', JStr ''cancelled'')]\<rparr>"

text \<open>
  \<open>_cleanup_interrupted_states\<close>. The latest-card pointer is touched only if it names
  a removed card. A key that is not a number makes step 3 raise after steps 1 and 2 have
  been done.
\<close>

definition cleanup_interrupted_states :: "agent_state \<Rightarrow> (py_error + unit) \<times> agent_state" where
  "cleanup_interrupted_states st =
     (let chat1 = cancel_tool_messages (chat_list st);
          cards_to_remove =
            map fst (filter (\<lambda>(card_id, card). status card = InProgress) (card_dict st));
          cards2 = fold AList.delete cards_to_remove (card_dict st);
          finish = (\<lambda>latest.
            (Inr (), st\<lparr>chat_list :=
                          rev (complete_first_progress_summary (rev chat1)) @ [interrupted_msg],
                        card_dict := cards2, latest_card_id := latest\<rparr>))
      in if (case latest_card_id st of None \<Rightarrow> False | Some l \<Rightarrow> l \<in> set cards_to_remove) then
           (if cards2 \<noteq> [] then
              (case max_int_keys (map fst cards2) of
                 Inl e \<Rightarrow> (Inl e, st\<lparr>chat_list := chat1, card_dict := cards2\<rparr>)
               | Inr n \<Rightarrow> finish (Some (str_of_nat n)))
            else finish None)
         else finish (latest_card_id st))"

text \<open>A card id as \<open>generate_card_id\<close> produces it: the decimal string of a number.\<close>

definition canonical_id :: "string \<Rightarrow> bool" where
  "canonical_id k = (case py_int k of Inr n \<Rightarrow> str_of_nat n = k | Inl _ \<Rightarrow> False)"

text \<open>The store holds exactly the ids \<open>"1"\<close> to \<open>"n"\<close>, in the order of their creation.\<close>

definition dense_ids :: "agent_state \<Rightarrow> bool" where
  "dense_ids st = (map fst (card_dict st) = map str_of_nat [1..<Suc (length (card_dict st))])"

subsection \<open>Example stores\<close>

definition example_card :: "string \<Rightarrow> card_status \<Rightarrow> card" where
  "example_card k s =
     \<lparr>card_id = k, status = s, card_ref_implicit = [], card_ref_explicit = [],
      body = WebSearchResultBody None\<rparr>"

text \<open>A completed card, then a card still in progress, both under generated ids.\<close>

definition example_store_1 :: agent_state where
  "example_store_1 =
     add_info_card (example_card (generate_card_id initial_agent_state) Completed) initial_agent_state"

definition example_store_2 :: agent_state where
  "example_store_2 =
     add_info_card (example_card (generate_card_id example_store_1) InProgress) example_store_1"

text \<open>A single card, in progress.\<close>

definition example_store_single :: agent_state where
  "example_store_single =
     add_info_card (example_card (generate_card_id initial_agent_state) InProgress) initial_agent_state"

text \<open>
  Four completed cards whose latest, \<open>"4"\<close>, was created after cards \<open>"2"\<close> and
  \<open>"4"\<close> of an earlier run had been removed from a store of five.
\<close>

definition example_store_gap :: agent_state where
  "example_store_gap =
     initial_agent_state\<lparr>card_dict :=
        [(''1'', example_card ''1'' Completed), (''3'', example_card ''3'' Completed),
         (''5'', example_card ''5'' Completed), (''4'', example_card ''4'' Completed)],
        latest_card_id := Some ''4''\<rparr>"

subsection \<open>The claims' vocabulary for the latest-card pointer\<close>

definition is_highest_id :: "(string \<times> card) list \<Rightarrow> string \<Rightarrow> bool" where
  "is_highest_id cards k =
     (k \<in> fst ` set cards \<and> (\<forall>k' \<in> fst ` set cards. nat_of_digits k' \<le> nat_of_digits k))"

text \<open>The pointer names the highest id of the store, or is none for an empty store.\<close>

definition latest_is_highest :: "agent_state \<Rightarrow> bool" where
  "latest_is_highest st =
     (case latest_card_id st of
        None \<Rightarrow> card_dict st = []
      | Some k \<Rightarrow> is_highest_id (card_dict st) k)"

text \<open>The pointer names a card that is in progress, which cleanup removes.\<close>

definition latest_in_progress :: "agent_state \<Rightarrow> bool" where
  "latest_in_progress st =
     (case latest_card_id st of
        None \<Rightarrow> False
      | Some l \<Rightarrow> l \<in> fst ` set (filter (\<lambda>(k, c). status c = InProgress) (card_dict st)))"

section \<open>Fuzzy span locator and highlight compositor (agents/infoTraceAgent/infoTraceAgent.py)\<close>

subsection \<open>Python string operations\<close>

text \<open>\<open>s[i:j]\<close> for indices that are not negative.\<close>

definition slice :: "'a list \<Rightarrow> nat \<Rightarrow> nat \<Rightarrow> 'a list" where
  "slice s i j = take (j - i) (drop i s)"

text \<open>\<open>text.find(sub)\<close>: the index of the first occurrence, \<open>None\<close> for \<open>-1\<close>.\<close>

fun str_find :: "string \<Rightarrow> string \<Rightarrow> nat option" where
  "str_find [] sub = (if sub = [] then Some 0 else None)"
| "str_find (c # cs) sub =
     (if prefix sub (c # cs) then Some 0 else map_option Suc (str_find cs sub))"

text \<open>
  The characters \<open>str.strip\<close> removes: those for which \<open>str.isspace\<close> holds, among
  the code points below 256.
\<close>

definition is_space :: "char \<Rightarrow> bool" where
  "is_space c = ((of_char c :: nat) \<in> {9, 10, 11, 12, 13, 28, 29, 30, 31, 32, 133, 160})"

definition lstrip :: "string \<Rightarrow> string" where
  "lstrip s = dropWhile is_space s"

definition rstrip :: "string \<Rightarrow> string" where
  "rstrip s = rev (dropWhile is_space (rev s))"

definition strip :: "string \<Rightarrow> string" where
  "strip s = rstrip (lstrip s)"

subsection \<open>Fuzzy span locator\<close>

text \<open>
  \<open>rapidfuzz.fuzz.partial_ratio_alignment(text_to_match, source_text, score_cutoff=50)\<close>
  is a library function: it is a parameter, returning \<open>(dest_start, dest_end)\<close> or
  \<open>None\<close>. The parameter itself is \<open>None\<close> when the import fails.
\<close>

type_synonym aligner = "string \<Rightarrow> string \<Rightarrow> (nat \<times> nat) option"

definition fuzzy_match_in_source :: "aligner option \<Rightarrow> string \<Rightarrow> string \<Rightarrow> string" where
  "fuzzy_match_in_source rapidfuzz text_to_match source_text =
     (if sublist text_to_match source_text then text_to_match
      else if length text_to_match < 5 then text_to_match
      else case rapidfuzz of
             None \<Rightarrow> text_to_match
           | Some partial_ratio_alignment \<Rightarrow>
               (case partial_ratio_alignment text_to_match source_text of
                  None \<Rightarrow> text_to_match
                | Some (dest_start, dest_end) \<Rightarrow>
                    (let matched_text = slice source_text dest_start dest_end
                     in if matched_text \<noteq> [] then matched_text else text_to_match)))"

subsection \<open>Separator handling\<close>

text \<open>
  The pattern \<open>(\||(?:^|\n)- )\<close> at one position of the subject: the length of the match,
  trying \<open>|\<close> first, then \<open>- \<close> at the very start of the subject, then a newline
  followed by \<open>- \<close>.
\<close>

definition match_separator :: "bool \<Rightarrow> string \<Rightarrow> nat option" where
  "match_separator at_start s =
     (if prefix ''|'' s then Some 1
      else if at_start \<and> prefix ''- '' s then Some 2
      else if prefix [CHR 0x0A, CHR ''-'', CHR '' ''] s then Some 3
      else None)"

text \<open>\<open>re.search(separator_pattern, text)\<close>, as a truth value.\<close>

fun re_search_separator :: "bool \<Rightarrow> string \<Rightarrow> bool" where
  "re_search_separator at_start [] = False"
| "re_search_separator at_start (c # cs) =
     (match_separator at_start (c # cs) \<noteq> None \<or> re_search_separator False cs)"

text \<open>
  \<open>re.split(separator_pattern, text)\<close>: the pattern has one group, so the result
  alternates text and separator, starting and ending with text. \<open>cur\<close> is the text
  read since the last separator.
\<close>

fun re_split_separator :: "bool \<Rightarrow> string \<Rightarrow> string \<Rightarrow> string list" where
  "re_split_separator at_start cur [] = [cur]"
| "re_split_separator at_start cur (c # cs) =
     (case match_separator at_start (c # cs) of
        Some n \<Rightarrow> cur # take n (c # cs) # re_split_separator False [] (drop (n - 1) cs)
      | None \<Rightarrow> re_split_separator False (cur @ [c]) cs)"

definition wrap_part :: "string \<Rightarrow> string" where
  "wrap_part part =
     (if match_separator True part \<noteq> None then part
      else if strip part \<noteq> [] then
        (let leading_ws = take (length part - length (lstrip part)) part;
             trailing_ws = drop (length (rstrip part)) part;
             content = strip part
         in leading_ws @ ''<highlight>'' @ content @ ''</highlight>'' @ trailing_ws)
      else part)"

definition apply_highlight_with_separator_handling :: "string \<Rightarrow> string" where
  "apply_highlight_with_separator_handling text =
     (if \<not> re_search_separator True text then ''<highlight>'' @ text @ ''</highlight>''
      else concat (map wrap_part (re_split_separator True [] text)))"

subsection \<open>Highlight compositor\<close>

text \<open>Step 1 of \<open>_apply_highlight_to_string\<close>: the ranges of the located snippets.\<close>

fun collect_ranges :: "aligner option \<Rightarrow> string \<Rightarrow> string list \<Rightarrow> (nat \<times> nat) list" where
  "collect_ranges rapidfuzz text [] = []"
| "collect_ranges rapidfuzz text (support_content # rest) =
     (let matched_text = fuzzy_match_in_source rapidfuzz support_content text
      in (if matched_text \<noteq> [] then
            (case str_find text matched_text of
               Some start \<Rightarrow> [(start, start + length matched_text)]
             | None \<Rightarrow> [])
          else []) @ collect_ranges rapidfuzz text rest)"

text \<open>
  Step 2: one iteration of the merge loop on the list \<open>merged\<close>, which is never empty,
  and the loop over the sorted ranges. \<open>ranges.sort()\<close> orders the pairs
  lexicographically.
\<close>

definition merge_step :: "(nat \<times> nat) list \<Rightarrow> nat \<times> nat \<Rightarrow> (nat \<times> nat) list" where
  "merge_step merged r =
     (case (last merged, r) of
        ((last_start, last_end), (start, end)) \<Rightarrow>
          if start \<le> last_end then butlast merged @ [(last_start, max last_end end)]
          else merged @ [(start, end)])"

definition merge_ranges :: "(nat \<times> nat) list \<Rightarrow> (nat \<times> nat) list" where
  "merge_ranges ranges = (let sorted_ranges = sort ranges
                          in foldl merge_step [hd sorted_ranges] (tl sorted_ranges))"

text \<open>Step 3: the merged ranges are wrapped from the last to the first.\<close>

definition highlight_range :: "nat \<times> nat \<Rightarrow> string \<Rightarrow> string" where
  "highlight_range r result =
     (case r of (start, end) \<Rightarrow>
        take start result @ apply_highlight_with_separator_handling (slice result start end) @
        drop end result)"

definition apply_merged :: "string \<Rightarrow> (nat \<times> nat) list \<Rightarrow> string" where
  "apply_merged text merged = fold highlight_range (rev merged) text"

definition apply_highlight_to_string :: "aligner option \<Rightarrow> string \<Rightarrow> string list \<Rightarrow> string" where
  "apply_highlight_to_string rapidfuzz text support_content_list =
     (let ranges = collect_ranges rapidfuzz text support_content_list
      in if ranges = [] then text else apply_merged text (merge_ranges ranges))"

subsection \<open>The claims' vocabulary for ranges\<close>

text \<open>The positions a list of ranges covers.\<close>

definition covered :: "(nat \<times> nat) list \<Rightarrow> nat set" where
  "covered rs = (\<Union>(s, e) \<in> set rs. {s..<e})"

text \<open>
  The ranges are in ascending order, none empty, each beginning after position \<open>p\<close> or
  at it, and each beginning strictly after the end of the one before: no two overlap or
  touch.
\<close>

fun separated_from :: "nat \<Rightarrow> (nat \<times> nat) list \<Rightarrow> bool" where
  "separated_from p [] = True"
| "separated_from p ((s, e) # rs) = (p \<le> s \<and> s < e \<and> separated_from (Suc e) rs)"

text \<open>
  The text with every range wrapped at its offsets in the original text: the text up to
  the first range, the wrapped range, and so on from its end.
\<close>

fun render_from :: "nat \<Rightarrow> string \<Rightarrow> (nat \<times> nat) list \<Rightarrow> string" where
  "render_from p text [] = drop p text"
| "render_from p text ((s, e) # rs) =
     slice text p s @ apply_highlight_with_separator_handling (slice text s e) @
     render_from e text rs"

subsection \<open>Example aligner\<close>

text \<open>An aligner that finds the span \<open>[4, 9)\<close> of one source text and nothing elsewhere.\<close>

definition example_aligner :: aligner where
  "example_aligner t s = (if s = ''the quick brown fox'' then Some (4, 9) else None)"

text \<open>
  The merge loop as a recursion on \<open>merged[-1]\<close>, the range still open for merging;
  \<open>foldl_merge_step\<close> below shows it is the loop.
\<close>

fun merge_from :: "nat \<times> nat \<Rightarrow> (nat \<times> nat) list \<Rightarrow> (nat \<times> nat) list" where
  "merge_from (last_start, last_end) [] = [(last_start, last_end)]"
| "merge_from (last_start, last_end) ((start, end) # rs) =
     (if start \<le> last_end then merge_from (last_start, max last_end end) rs
      else (last_start, last_end) # merge_from (start, end) rs)"

section \<open>Citation tracing (agents/infoTraceAgent/infoTraceAgent.py)\<close>

subsection \<open>Environment and state of a trace\<close>

text \<open>
  The generation service is outside the program. Its answer to the \<open>n\<close>-th request of
  a trace is \<open>te_llm env n\<close>: every run of the program against a real service is the run
  of the model on the sequence of answers that service gave. The prompts sent (the card
  texts and the corrective feedback appended on a retry) reach only the service and are not
  built; of reading a card's text only its exceptions are kept. A response without
  \<open>tool_calls\<close> has the empty list. \<open>json.loads\<close> and the aligner are library
  functions, taken as parameters.
\<close>

record llm_response =
  resp_content :: "string option"
  resp_tool_calls :: "tool_call list"

record trace_env =
  te_cards :: "(string \<times> card) list"
  te_llm :: "nat \<Rightarrow> llm_response"
  te_json_loads :: "string \<Rightarrow> jval option"
  te_rapidfuzz :: "aligner option"

text \<open>
  The mutable state a trace touches: the number of requests made so far, the agent's
  \<open>trace_failed\<close> flag, and the heap of dict objects, addressed by position. The
  search result items of the cards live in this heap.
\<close>

record trace_state =
  llm_calls :: nat
  trace_failed :: bool
  heap :: "pydict list"

subsection \<open>Reading cards\<close>

definition get_info_card :: "trace_env \<Rightarrow> string \<Rightarrow> py_error + card" where
  "get_info_card env cid =
     (case map_of (te_cards env) cid of
        None \<Rightarrow> Inl (ValueError (''Info card with ID '' @ cid @ '' not found''))
      | Some c \<Rightarrow> Inr c)"

text \<open>
  \<open>read_info_card_content\<close>, for its exceptions: a webpage that is not yet scraped
  raises \<open>ValueError\<close>, and a note without text makes \<open>str + None\<close> raise
  \<open>TypeError\<close>.
\<close>

definition read_info_card_content :: "card \<Rightarrow> py_error + unit" where
  "read_info_card_content c =
     (case body c of
        UserRequirementBody _ \<Rightarrow> Inr ()
      | WebSearchResultBody _ \<Rightarrow> Inr ()
      | WebpageBody title markdown \<Rightarrow>
          if title = None \<or> markdown = None then Inl (ValueError ''The webpage is not yet scraped.'')
          else Inr ()
      | NoteBody _ markdown \<Rightarrow>
          if markdown = None then Inl (TypeError ''can only concatenate str to str'') else Inr ())"

definition get_card_content :: "trace_env \<Rightarrow> string \<Rightarrow> py_error + unit" where
  "get_card_content env cid =
     (case get_info_card env cid of Inl e \<Rightarrow> Inl e | Inr c \<Rightarrow> read_info_card_content c)"

text \<open>The main content of a card: a string, or the list of search result items.\<close>

datatype main_content = MStr string | MList "addr list"

definition get_card_main_content :: "trace_env \<Rightarrow> string \<Rightarrow> py_error + main_content" where
  "get_card_main_content env cid =
     (case get_info_card env cid of
        Inl e \<Rightarrow> Inl e
      | Inr c \<Rightarrow>
          (case body c of
             WebSearchResultBody search_result_list \<Rightarrow>
               (case search_result_list of
                  None \<Rightarrow> Inl (ValueError (''WebSearchResultCard '' @ cid @ '' has no search_result_list''))
                | Some items \<Rightarrow> Inr (MList items))
           | WebpageBody _ markdown_content \<Rightarrow>
               (case markdown_content of
                  None \<Rightarrow> Inl (ValueError (''WebpageCard '' @ cid @ '' has no markdown_convert_from_webpage''))
                | Some s \<Rightarrow> Inr (MStr s))
           | NoteBody _ markdown_with_cite \<Rightarrow>
               (case markdown_with_cite of
                  None \<Rightarrow> Inl (ValueError (''NoteCard '' @ cid @ '' has no markdown_with_cite''))
                | Some s \<Rightarrow> Inr (MStr s))
           | UserRequirementBody _ \<Rightarrow> Inl (ValueError ''Unsupported card type for tracing'')))"

definition get_card_explicit_refs :: "trace_env \<Rightarrow> string \<Rightarrow> py_error + string list" where
  "get_card_explicit_refs env cid =
     (case get_info_card env cid of Inl e \<Rightarrow> Inl e | Inr c \<Rightarrow> Inr (card_ref_explicit c))"

subsection \<open>Highlighting the content of a card\<close>

text \<open>
  The snippets come from the service as JSON values. \<open>_fuzzy_match_in_source\<close> begins
  with \<open>text_to_match in source_text\<close>, which raises \<open>TypeError\<close> unless the snippet is
  a string; the loop of step 1 visits every snippet before anything else is done.
\<close>

fun str_items :: "jval list \<Rightarrow> py_error + string list" where
  "str_items [] = Inr []"
| "str_items (JStr s # vs) = (case str_items vs of Inl e \<Rightarrow> Inl e | Inr ss \<Rightarrow> Inr (s # ss))"
| "str_items (_ # vs) = Inl (TypeError ''in <string> requires string as left operand'')"

text \<open>
  \<open>copy.deepcopy\<close> of a list of dict objects: every object met for the first time is
  copied to a fresh address, and an object met again is given the copy made before (the
  memo). The values inside an item are immutable.
\<close>

fun deepcopy_items :: "(addr \<times> addr) list \<Rightarrow> addr list \<Rightarrow> pydict list \<Rightarrow> addr list \<times> pydict list" where
  "deepcopy_items memo [] h = ([], h)"
| "deepcopy_items memo (a # as) h =
     (case map_of memo a of
        Some a' \<Rightarrow>
          (case deepcopy_items memo as h of (copies, h') \<Rightarrow> (a' # copies, h'))
      | None \<Rightarrow>
          (let a' = length h;
               h1 = h @ [if a < length h then h ! a else []]
           in case deepcopy_items ((a, a') # memo) as h1 of (copies, h') \<Rightarrow> (a' # copies, h')))"

text \<open>The loop over the copied items: a string under \<open>snippet\<close> is replaced, in the copy.\<close>

fun highlight_items ::
  "aligner option \<Rightarrow> jval list \<Rightarrow> addr list \<Rightarrow> pydict list \<Rightarrow> (py_error + unit) \<times> pydict list" where
  "highlight_items rf support_content_list [] h = (Inr (), h)"
| "highlight_items rf support_content_list (a # as) h =
     (case (if a < length h then map_of (h ! a) ''snippet'' else None) of
        Some (JStr snippet) \<Rightarrow>
          (case str_items support_content_list of
             Inl e \<Rightarrow> (Inl e, h)
           | Inr supports \<Rightarrow>
               highlight_items rf support_content_list as
                 (h[a := AList.update ''snippet''
                           (JStr (apply_highlight_to_string rf snippet supports)) (h ! a)]))
      | _ \<Rightarrow> highlight_items rf support_content_list as h)"

definition apply_highlight_to_content ::
  "trace_env \<Rightarrow> main_content \<Rightarrow> jval list \<Rightarrow> trace_state \<Rightarrow> (py_error + main_content) \<times> trace_state" where
  "apply_highlight_to_content env main_content support_content_list st =
     (case main_content of
        MStr s \<Rightarrow>
          (case str_items support_content_list of
             Inl e \<Rightarrow> (Inl e, st)
           | Inr supports \<Rightarrow>
               (Inr (MStr (apply_highlight_to_string (te_rapidfuzz env) s supports)), st))
      | MList items \<Rightarrow>
          (case deepcopy_items [] items (heap st) of
             (result_list, h1) \<Rightarrow>
               (case highlight_items (te_rapidfuzz env) support_content_list result_list h1 of
                  (Inl e, h2) \<Rightarrow> (Inl e, st\<lparr>heap := h2\<rparr>)
                | (Inr _, h2) \<Rightarrow> (Inr (MList result_list), st\<lparr>heap := h2\<rparr>))))"

subsection \<open>Repairing a stringified list\<close>

text \<open>\<open>s.replace(old, new)\<close> for a non-empty \<open>old\<close>: occurrences are replaced from the left, without overlap.\<close>

fun str_replace :: "string \<Rightarrow> string \<Rightarrow> string \<Rightarrow> string" where
  "str_replace old new [] = []"
| "str_replace old new (c # cs) =
     (if old \<noteq> [] \<and> prefix old (c # cs) then new @ str_replace old new (drop (length old - 1) cs)
      else c # str_replace old new cs)"

definition quote_char :: char where
  "quote_char = CHR 0x22"

definition backslash_char :: char where
  "backslash_char = CHR 0x5C"

text \<open>
  One element of the array text, already stripped and not empty: a JSON value, or else the
  inside of a pair of quotes.
\<close>

definition parse_element :: "(string \<Rightarrow> jval option) \<Rightarrow> string \<Rightarrow> jval option" where
  "parse_element loads element_str =
     (case loads element_str of
        Some parsed_element \<Rightarrow> Some parsed_element
      | None \<Rightarrow>
          if prefix [quote_char] element_str \<and> suffix [quote_char] element_str
          then Some (JStr (butlast (tl element_str)))
          else None)"

text \<open>
  \<open>_split_json_array_elements\<close>: the loop over the characters with its four variables,
  and the last element after the loop. \<open>None\<close> is the early \<open>return None\<close>.
\<close>

fun split_json_array_elements_loop ::
  "(string \<Rightarrow> jval option) \<Rightarrow> jval list \<Rightarrow> string \<Rightarrow> bool \<Rightarrow> bool \<Rightarrow> string \<Rightarrow> jval list option" where
  "split_json_array_elements_loop loads elements current in_string escape_next [] =
     (let element_str = strip current
      in if element_str \<noteq> [] then
           (case parse_element loads element_str of
              Some v \<Rightarrow> Some (elements @ [v])
            | None \<Rightarrow> None)
         else Some elements)"
| "split_json_array_elements_loop loads elements current in_string escape_next (char # rest) =
     (if escape_next then
        split_json_array_elements_loop loads elements (current @ [char]) in_string False rest
      else if char = backslash_char then
        split_json_array_elements_loop loads elements (current @ [char]) in_string True rest
      else if char = quote_char then
        split_json_array_elements_loop loads elements (current @ [char]) (\<not> in_string) False rest
      else if char = CHR '','' \<and> \<not> in_string then
        (let element_str = strip current
         in if element_str \<noteq> [] then
              (case parse_element loads element_str of
                 Some v \<Rightarrow> split_json_array_elements_loop loads (elements @ [v]) [] in_string False rest
               | None \<Rightarrow> None)
            else split_json_array_elements_loop loads elements [] in_string False rest)
      else split_json_array_elements_loop loads elements (current @ [char]) in_string False rest)"

definition split_json_array_elements :: "(string \<Rightarrow> jval option) \<Rightarrow> string \<Rightarrow> jval list option" where
  "split_json_array_elements loads inner = split_json_array_elements_loop loads [] [] False False inner"

text \<open>
  \<open>re.findall\<close> with the pattern \<open>"([^"]*(?:\\.[^"]*)*)"\<close>. After the opening quote
  \<open>[^"]*\<close> runs to the next quote, where the closing quote matches at once; so a match
  is a quote, the characters up to the next quote, and that quote, and the escape branch
  never decides a match. The matches do not overlap; the group is the text between the
  two quotes.
\<close>

function re_findall_quoted :: "string \<Rightarrow> string list" where
  "re_findall_quoted [] = []"
| "re_findall_quoted (c # cs) =
     (if c = quote_char then
        (if quote_char \<in> set cs
         then takeWhile (\<lambda>x. x \<noteq> quote_char) cs #
              re_findall_quoted (tl (dropWhile (\<lambda>x. x \<noteq> quote_char) cs))
         else [])
      else re_findall_quoted cs)"
  by pat_completeness auto
termination
  by (relation "measure length")
     (auto simp: less_Suc_eq_le intro: order_trans[OF diff_le_self length_dropWhile_le])

text \<open>
  \<open>_try_parse_stringified_list\<close>, strategy by strategy. In strategy 2 the source text
  replaces a double quote by a double quote twice, and then every occurrence of the
  string \<open>, "'").replace(\<close> by a single quote.
\<close>

definition strategy_2_fixed :: "string \<Rightarrow> string" where
  "strategy_2_fixed v =
     str_replace ([CHR '','', CHR '' '', quote_char, CHR 0x27, quote_char] @ '').replace('') [CHR 0x27]
       (str_replace [quote_char] [quote_char] (str_replace [quote_char] [quote_char] v))"

definition strategy_3 :: "(string \<Rightarrow> jval option) \<Rightarrow> string \<Rightarrow> jval list option" where
  "strategy_3 loads v =
     (let stripped = strip v
      in if prefix ''['' stripped \<and> suffix '']'' stripped then
           (let inner = strip (butlast (tl stripped))
            in if inner = [] then Some [] else split_json_array_elements loads inner)
         else None)"

definition strategy_4 :: "(string \<Rightarrow> jval option) \<Rightarrow> string \<Rightarrow> jval list option" where
  "strategy_4 loads v =
     (let matches = re_findall_quoted v
      in if matches \<noteq> [] then
           Some (map (\<lambda>m. case loads ([quote_char] @ m @ [quote_char]) of
                             Some unescaped \<Rightarrow> unescaped
                           | None \<Rightarrow> JStr m) matches)
         else None)"

definition try_parse_stringified_list :: "(string \<Rightarrow> jval option) \<Rightarrow> string \<Rightarrow> jval list option" where
  "try_parse_stringified_list loads v =
     (case loads v of
        Some (JArr parsed) \<Rightarrow> Some parsed
      | _ \<Rightarrow>
     (case loads (strategy_2_fixed v) of
        Some (JArr parsed) \<Rightarrow> Some parsed
      | _ \<Rightarrow>
     (case strategy_3 loads v of
        Some elements \<Rightarrow> Some elements
      | None \<Rightarrow> strategy_4 loads v)))"

definition py_type_name :: "jval \<Rightarrow> string" where
  "py_type_name v =
     (case v of JNull \<Rightarrow> ''NoneType'' | JBool _ \<Rightarrow> ''bool'' | JNum _ \<Rightarrow> ''int''
      | JStr _ \<Rightarrow> ''str'' | JArr _ \<Rightarrow> ''list'' | JObj _ \<Rightarrow> ''dict'')"

text \<open>\<open>_ensure_list\<close>: the list, or the error message.\<close>

definition ensure_list :: "(string \<Rightarrow> jval option) \<Rightarrow> jval \<Rightarrow> string \<Rightarrow> string + jval list" where
  "ensure_list loads v field_name =
     (case v of
        JArr xs \<Rightarrow> Inr xs
      | JStr s \<Rightarrow>
          (case try_parse_stringified_list loads s of
             Some parsed_list \<Rightarrow> Inr parsed_list
           | None \<Rightarrow>
               Inl (field_name @ '' is not valid JSON and could not be recovered'' @
                    (if quote_char \<in> set s \<and> \<not> sublist [backslash_char, quote_char] s
                     then ''. Hint: The string contains unescaped quotes.'' else [])))
      | _ \<Rightarrow> Inl (field_name @ '' must be list, got '' @ py_type_name v))"

subsection \<open>Root extraction and support finding\<close>

text \<open>
  What one response leads to: a retry with an error text, an exception that leaves the
  loop, or the values the method returns.
\<close>

datatype 'a attempt = Retry string | Crash py_error | Success 'a

definition default_max_retries :: nat where
  "default_max_retries = 3"

record extraction =
  er_extracted_content_list :: "jval list"
  er_reasoning :: jval

text \<open>
  The body of the retry loop of \<open>_extract_support_from_source_card\<close>, checks 1 to 4. A
  payload that is JSON but not an object has no \<open>get\<close>: \<open>AttributeError\<close>.
\<close>

definition extraction_attempt :: "trace_env \<Rightarrow> llm_response \<Rightarrow> (jval list \<times> jval) attempt" where
  "extraction_attempt env response =
     (case resp_tool_calls response of
        [] \<Rightarrow> Retry ''No tool call in response''
      | tool_call # _ \<Rightarrow>
          if tc_name tool_call \<noteq> ''report_extraction_result''
          then Retry (''Wrong tool: '' @ tc_name tool_call)
          else
            (case te_json_loads env (tc_arguments tool_call) of
               None \<Rightarrow> Retry ''Invalid JSON in arguments''
             | Some (JObj result) \<Rightarrow>
                 (case ensure_list (te_json_loads env)
                         (dict_get_default result ''extracted_content_list'' (JArr []))
                         ''extracted_content_list'' of
                    Inl error \<Rightarrow> Retry error
                  | Inr parsed_list \<Rightarrow>
                      Success (parsed_list, dict_get_default result ''reasoning'' (JStr [])))
             | Some _ \<Rightarrow> Crash (AttributeError ''object has no attribute get'')))"

text \<open>\<open>for attempt in range(max_retries)\<close>, and the \<open>raise RuntimeError\<close> after it.\<close>

fun extract_loop :: "trace_env \<Rightarrow> string \<Rightarrow> nat \<Rightarrow> trace_state \<Rightarrow> (py_error + extraction) \<times> trace_state" where
  "extract_loop env traced_content 0 st =
     (Inl (RuntimeError ''_extract_support_from_source_card failed''), st)"
| "extract_loop env traced_content (Suc remaining) st =
     (let response = te_llm env (llm_calls st);
          st1 = st\<lparr>llm_calls := Suc (llm_calls st)\<rparr>
      in case extraction_attempt env response of
           Retry _ \<Rightarrow> extract_loop env traced_content remaining st1
         | Crash e \<Rightarrow> (Inl e, st1)
         | Success (parsed_list, reasoning) \<Rightarrow>
             (Inr \<lparr>er_extracted_content_list =
                     (if parsed_list \<noteq> [] then parsed_list else [JStr traced_content]),
                   er_reasoning = reasoning\<rparr>, st1))"

definition extract_support_from_source_card ::
  "trace_env \<Rightarrow> string \<Rightarrow> string \<Rightarrow> nat \<Rightarrow> trace_state \<Rightarrow> (py_error + extraction) \<times> trace_state" where
  "extract_support_from_source_card env traced_content source_card_id max_retries st =
     (case get_card_content env source_card_id of
        Inl e \<Rightarrow> (Inl e, st)
      | Inr _ \<Rightarrow> extract_loop env traced_content max_retries st)"

record support =
  sr_has_support :: jval
  sr_support_content_list :: "jval list option"
  sr_reasoning :: jval

text \<open>The body of the retry loop of \<open>_find_support_in_card\<close>.\<close>

definition support_attempt :: "trace_env \<Rightarrow> llm_response \<Rightarrow> support attempt" where
  "support_attempt env response =
     (case resp_tool_calls response of
        [] \<Rightarrow> Retry ''No tool call in response''
      | tool_call # _ \<Rightarrow>
          if tc_name tool_call \<noteq> ''report_support_finding_result''
          then Retry (''Wrong tool: '' @ tc_name tool_call)
          else
            (case te_json_loads env (tc_arguments tool_call) of
               None \<Rightarrow> Retry ''Invalid JSON in arguments''
             | Some (JObj result) \<Rightarrow>
                 (let finish = (\<lambda>l. Success
                        \<lparr>sr_has_support = dict_get_default result ''has_support'' (JBool False),
                         sr_support_content_list = l,
                         sr_reasoning = dict_get_default result ''reasoning'' (JStr [])\<rparr>)
                  in case dict_get result ''support_content_list'' of
                       None \<Rightarrow> finish None
                     | Some JNull \<Rightarrow> finish None
                     | Some v \<Rightarrow>
                         (case ensure_list (te_json_loads env) v ''support_content_list'' of
                            Inl error \<Rightarrow> Retry error
                          | Inr parsed_list \<Rightarrow> finish (Some parsed_list)))
             | Some _ \<Rightarrow> Crash (AttributeError ''object has no attribute get'')))"

fun support_loop :: "trace_env \<Rightarrow> nat \<Rightarrow> trace_state \<Rightarrow> (py_error + support) \<times> trace_state" where
  "support_loop env 0 st = (Inl (RuntimeError ''_find_support_in_card failed''), st)"
| "support_loop env (Suc remaining) st =
     (let response = te_llm env (llm_calls st);
          st1 = st\<lparr>llm_calls := Suc (llm_calls st)\<rparr>
      in case support_attempt env response of
           Retry _ \<Rightarrow> support_loop env remaining st1
         | Crash e \<Rightarrow> (Inl e, st1)
         | Success result \<Rightarrow> (Inr result, st1))"

definition find_support_in_card ::
  "trace_env \<Rightarrow> string \<Rightarrow> string \<Rightarrow> nat \<Rightarrow> trace_state \<Rightarrow> (py_error + support) \<times> trace_state" where
  "find_support_in_card env claim_content predecessor_card_id max_retries st =
     (case get_card_content env predecessor_card_id of
        Inl e \<Rightarrow> (Inl e, st)
      | Inr _ \<Rightarrow> support_loop env max_retries st)"

subsection \<open>The trace tree\<close>

datatype trace_node =
  TraceNode (node_card_id: string) (node_support: "jval list option")
    (node_highlight: "main_content option") (node_children: "trace_node list option")

text \<open>The child that marks a predecessor without support.\<close>

definition null_node :: "string \<Rightarrow> trace_node" where
  "null_node ref_card_id = TraceNode ref_card_id None None None"

text \<open>\<open>"\n\n".join(xs)\<close>.\<close>

fun join_paragraphs :: "string list \<Rightarrow> string" where
  "join_paragraphs [] = []"
| "join_paragraphs [x] = x"
| "join_paragraphs (x # xs) = x @ [CHR 0x0A, CHR 0x0A] @ join_paragraphs xs"

text \<open>
  The condition \<open>result["has_support"] and result["support_content_list"]\<close>: the
  snippets when it holds, \<open>None\<close> when it does not.
\<close>

definition supporting_snippets :: "support \<Rightarrow> jval list option" where
  "supporting_snippets result =
     (if truthy (sr_has_support result) then
        (case sr_support_content_list result of
           None \<Rightarrow> None
         | Some l \<Rightarrow> if l \<noteq> [] then Some l else None)
      else None)"

text \<open>
  \<open>_trace_node_recursive\<close> returns the children it assigns to its node, and
  \<open>trace_predecessors\<close> is its loop over the explicit references, with the loop
  variables \<open>found_any_support\<close> and \<open>supporting_nodes\<close>. The reference graph of a
  store may have a cycle, along which the recursion does not end: the first argument bounds
  the depth of the recursion, and \<open>None\<close> says the bound was reached.
\<close>

fun trace_node_recursive ::
      "nat \<Rightarrow> trace_env \<Rightarrow> string \<Rightarrow> string \<Rightarrow> trace_state \<Rightarrow>
       ((py_error + trace_node list) \<times> trace_state) option"
  and trace_predecessors ::
      "nat \<Rightarrow> trace_env \<Rightarrow> string \<Rightarrow> string list \<Rightarrow> bool \<Rightarrow> trace_node list \<Rightarrow> trace_state \<Rightarrow>
       ((py_error + bool \<times> trace_node list) \<times> trace_state) option" where
  "trace_node_recursive 0 env cid content_to_trace st = None"
| "trace_node_recursive (Suc depth) env cid content_to_trace st =
     (case get_card_explicit_refs env cid of
        Inl e \<Rightarrow> Some (Inl e, st)
      | Inr explicit_refs \<Rightarrow>
          if explicit_refs = [] then Some (Inr [], st)
          else
            (case trace_predecessors depth env content_to_trace explicit_refs False [] st of
               None \<Rightarrow> None
             | Some (Inl e, st') \<Rightarrow> Some (Inl e, st')
             | Some (Inr (found_any_support, supporting_nodes), st') \<Rightarrow>
                 if found_any_support then Some (Inr supporting_nodes, st')
                 else Some (Inr (map null_node explicit_refs), st'\<lparr>trace_failed := True\<rparr>)))"
| "trace_predecessors depth env content_to_trace [] found_any_support supporting_nodes st =
     Some (Inr (found_any_support, supporting_nodes), st)"
| "trace_predecessors depth env content_to_trace (ref_card_id # refs) found_any_support
       supporting_nodes st =
     (case find_support_in_card env content_to_trace ref_card_id default_max_retries st of
        (Inl e, st1) \<Rightarrow> Some (Inl e, st1)
      | (Inr result, st1) \<Rightarrow>
          (case supporting_snippets result of
             None \<Rightarrow>
               trace_predecessors depth env content_to_trace refs found_any_support
                 supporting_nodes st1
           | Some support_content_list \<Rightarrow>
             (case get_card_main_content env ref_card_id of
                  Inl e \<Rightarrow> Some (Inl e, st1)
                | Inr main_content \<Rightarrow>
             (case apply_highlight_to_content env main_content support_content_list st1 of
                  (Inl e, st2) \<Rightarrow> Some (Inl e, st2)
                | (Inr card_main_content_with_highlight, st2) \<Rightarrow>
             (case str_items support_content_list of
                  Inl e \<Rightarrow> Some (Inl e, st2)
                | Inr snippets \<Rightarrow>
             (case trace_node_recursive depth env ref_card_id (join_paragraphs snippets) st2 of
                  None \<Rightarrow> None
                | Some (Inl e, st3) \<Rightarrow> Some (Inl e, st3)
                | Some (Inr children, st3) \<Rightarrow>
                    trace_predecessors depth env content_to_trace refs True
                      (supporting_nodes @
                         [TraceNode ref_card_id (Some support_content_list)
                            (Some card_main_content_with_highlight) (Some children)]) st3))))))"

record trace_result =
  trace_status :: string
  trace_result_tree :: trace_node

definition trace_source ::
  "nat \<Rightarrow> trace_env \<Rightarrow> string \<Rightarrow> string \<Rightarrow> trace_state \<Rightarrow>
   ((py_error + trace_result) \<times> trace_state) option" where
  "trace_source depth env cid content_to_trace st =
     (let st0 = st\<lparr>trace_failed := False\<rparr>
      in case extract_support_from_source_card env content_to_trace cid default_max_retries st0 of
           (Inl e, st1) \<Rightarrow> Some (Inl e, st1)
         | (Inr extraction_result, st1) \<Rightarrow>
      (let extracted = er_extracted_content_list extraction_result
       in case get_card_main_content env cid of
            Inl e \<Rightarrow> Some (Inl e, st1)
          | Inr main_content \<Rightarrow>
       (case apply_highlight_to_content env main_content extracted st1 of
            (Inl e, st2) \<Rightarrow> Some (Inl e, st2)
          | (Inr card_main_content_with_highlight, st2) \<Rightarrow>
       (case str_items extracted of
            Inl e \<Rightarrow> Some (Inl e, st2)
          | Inr snippets \<Rightarrow>
       (case trace_node_recursive depth env cid (join_paragraphs snippets) st2 of
            None \<Rightarrow> None
          | Some (Inl e, st3) \<Rightarrow> Some (Inl e, st3)
          | Some (Inr children, st3) \<Rightarrow>
              Some (Inr \<lparr>trace_status = (if trace_failed st3 then ''Failed'' else ''Success''),
                         trace_result_tree =
                           TraceNode cid (Some extracted)
                             (Some card_main_content_with_highlight) (Some children)\<rparr>,
                    st3))))))"

subsection \<open>The claims' vocabulary for retries\<close>

definition is_retry :: "'a attempt \<Rightarrow> bool" where
  "is_retry a = (case a of Retry _ \<Rightarrow> True | _ \<Rightarrow> False)"

text \<open>What the \<open>k\<close>-th response after state \<open>st\<close> leads to in root extraction.\<close>

definition nth_extraction_attempt :: "trace_env \<Rightarrow> trace_state \<Rightarrow> nat \<Rightarrow> (jval list \<times> jval) attempt" where
  "nth_extraction_attempt env st k = extraction_attempt env (te_llm env (llm_calls st + k))"

subsection \<open>Example store and services\<close>

text \<open>
  A search result card, a note that cites it, and a note that cites that note. The one
  search result item is the object at address 0.
\<close>

definition example_cards :: "(string \<times> card) list" where
  "example_cards =
     [(''1'', \<lparr>card_id = ''1'', status = Completed, card_ref_implicit = [],
               card_ref_explicit = [], body = WebSearchResultBody (Some [0])\<rparr>),
      (''2'', \<lparr>card_id = ''2'', status = Completed, card_ref_implicit = [''1''],
               card_ref_explicit = [''1''], body = NoteBody ''Note 2'' (Some ''alpha beta'')\<rparr>),
      (''3'', \<lparr>card_id = ''3'', status = Completed, card_ref_implicit = [''2''],
               card_ref_explicit = [''2''],
               body = NoteBody ''Note 3'' (Some ''so alpha beta holds'')\<rparr>)]"

definition example_heap :: "pydict list" where
  "example_heap =
     [[(''title'', JStr ''A page''), (''url'', JStr ''http://a''),
       (''snippet'', JStr ''alpha beta gamma'')]]"

definition example_trace_state :: trace_state where
  "example_trace_state = \<lparr>llm_calls = 0, trace_failed = False, heap = example_heap\<rparr>"

text \<open>A stand-in for \<open>json.loads\<close> that knows the payloads of the examples by name.\<close>

definition example_loads :: "string \<Rightarrow> jval option" where
  "example_loads s =
     map_of
       [(''{}'', JObj []),
        (''[]'', JArr []),
        (''root'', JObj [(''extracted_content_list'', JArr [JStr ''alpha beta'']),
                         (''reasoning'', JStr ''same words'')]),
        (''yes-note'', JObj [(''has_support'', JBool True),
                             (''support_content_list'', JArr [JStr ''alpha beta''])]),
        (''yes-search'', JObj [(''has_support'', JBool True),
                               (''support_content_list'', JArr [JStr ''alpha''])]),
        (''no'', JObj [(''has_support'', JBool False), (''support_content_list'', JArr [])])] s"

definition respond :: "string \<Rightarrow> string \<Rightarrow> llm_response" where
  "respond name arguments =
     \<lparr>resp_content = None,
      resp_tool_calls = [\<lparr>tc_id = ''t'', tc_name = name, tc_arguments = arguments\<rparr>]\<rparr>"

definition example_env :: "llm_response list \<Rightarrow> trace_env" where
  "example_env responses =
     \<lparr>te_cards = example_cards,
      te_llm = (\<lambda>n. if n < length responses then responses ! n
                     else \<lparr>resp_content = Some ''text'', resp_tool_calls = []\<rparr>),
      te_json_loads = example_loads,
      te_rapidfuzz = None\<rparr>"

text \<open>Every card supports the claim; the search result card does not; two bad responses first.\<close>

definition responses_supported :: "llm_response list" where
  "responses_supported =
     [respond ''report_extraction_result'' ''root'',
      respond ''report_support_finding_result'' ''yes-note'',
      respond ''report_support_finding_result'' ''yes-search'']"


definition responses_retried :: "llm_response list" where
  "responses_retried =
     [\<lparr>resp_content = Some ''text'', resp_tool_calls = []\<rparr>,
      respond ''report_support_finding_result'' ''{}'',
      respond ''report_extraction_result'' ''{}'']"

subsection \<open>The claims' vocabulary for a walk\<close>




text \<open>
  What every step of a trace keeps: the objects of the heap stay as they are (the heap only
  grows), a set \<open>trace_failed\<close> flag stays set, and the request count does not fall.
\<close>

definition walk_keeps :: "trace_state \<Rightarrow> trace_state \<Rightarrow> bool" where
  "walk_keeps st st' =
     (prefix (heap st) (heap st') \<and> (trace_failed st \<longrightarrow> trace_failed st') \<and>
      llm_calls st \<le> llm_calls st')"

subsection \<open>The stored content of a card\<close>

text \<open>
  The result items of a search card as they read in a heap, and whether all of them are
  allocated there. A page or a note holds its text in the card itself.
\<close>

definition stored_items :: "pydict list \<Rightarrow> card \<Rightarrow> pydict list" where
  "stored_items h c =
     (case body c of
        WebSearchResultBody (Some items) \<Rightarrow> map (\<lambda>a. h ! a) items
      | _ \<Rightarrow> [])"

definition items_allocated :: "pydict list \<Rightarrow> card \<Rightarrow> bool" where
  "items_allocated h c =
     (case body c of
        WebSearchResultBody (Some items) \<Rightarrow> list_all (\<lambda>a. a < length h) items
      | _ \<Rightarrow> True)"

text \<open>The search card of the example store.\<close>

definition example_search_card :: card where
  "example_search_card =
     \<lparr>card_id = ''1'', status = Completed, card_ref_implicit = [], card_ref_explicit = [],
        body = WebSearchResultBody (Some [0])\<rparr>"

section \<open>Properties\<close>

subsection \<open>Workflow policy\<close>

lemma create_note_not_raw: "''create_note'' \<notin> RAW_INFO_COLLECTION_TOOLS"
  by (simp add: RAW_INFO_COLLECTION_TOOLS_def)

lemma check_raw:
  "function_name \<in> RAW_INFO_COLLECTION_TOOLS \<Longrightarrow>
   (check_note_creation_enforcement st function_name args \<noteq> None) =
   (3 \<le> raw_info_tool_calls_since_last_note st)"
  using create_note_not_raw
  by (auto simp: check_note_creation_enforcement_def MAX_RAW_INFO_TOOL_CALLS_BEFORE_NOTE_def)

lemma check_note:
  "(check_note_creation_enforcement st ''create_note'' args \<noteq> None) =
   (\<not> truthy (dict_get_default args ''is_progress_summary_note'' (JBool False)) \<and>
    3 \<le> note_calls_since_last_summary st)"
  using create_note_not_raw
  by (auto simp: check_note_creation_enforcement_def MAX_NOTE_CALLS_BEFORE_SUMMARY_def)

lemma check_raw_None:
  "function_name \<in> RAW_INFO_COLLECTION_TOOLS \<Longrightarrow>
   (check_note_creation_enforcement st function_name args = None) =
   (raw_info_tool_calls_since_last_note st < 3)"
  using check_raw[of function_name st args] by auto

lemma check_note_None:
  "(check_note_creation_enforcement st ''create_note'' args = None) =
   (truthy (dict_get_default args ''is_progress_summary_note'' (JBool False)) \<or>
    note_calls_since_last_summary st < 3)"
  using check_note[of st args] by auto

lemma check_other:
  "function_name \<notin> RAW_INFO_COLLECTION_TOOLS \<Longrightarrow> function_name \<noteq> ''create_note'' \<Longrightarrow>
   check_note_creation_enforcement st function_name args = None"
  by (simp add: check_note_creation_enforcement_def)

lemma update_raw:
  "function_name \<in> RAW_INFO_COLLECTION_TOOLS \<Longrightarrow>
   update_note_creation_counters st function_name args =
   st\<lparr>raw_info_tool_calls_since_last_note := raw_info_tool_calls_since_last_note st + 1\<rparr>"
  using create_note_not_raw
  by (auto simp: update_note_creation_counters_def)

lemma update_note:
  "update_note_creation_counters st ''create_note'' args =
   st\<lparr>raw_info_tool_calls_since_last_note := 0,
      note_calls_since_last_summary :=
        (if truthy (dict_get_default args ''is_progress_summary_note'' (JBool False)) then 0
         else note_calls_since_last_summary st + 1)\<rparr>"
  by (simp add: update_note_creation_counters_def)

lemma execute_rejected:
  assumes "json_loads ag (tc_arguments tc) = Some (JObj args)"
    and "dict_get args ''error'' = None"
    and "available_tool_functions ag (tc_name tc) = Some f"
    and "validate_tool_arguments ag (tc_name tc) args = None"
    and "check_note_creation_enforcement st (tc_name tc) args = Some e"
  shows "execute_single_tool_call ag tc st =
    (Inr (), st\<lparr>context_list := context_list st @
       [[(''tool_call_id'', JStr (tc_id tc)), (''role'', JStr ''tool''), (''name'', JStr (tc_name tc)),
         (''content'', JStr e), (''_compact_content'', JStr e)] @
        (if tc_name tc = ''create_note'' then [(''_is_progress_summary_note'', JBool False)] else [])]\<rparr>)"
  using assms
  by (simp add: execute_single_tool_call_def parse_tool_arguments_def add_tool_result_def)

lemma execute_accepted:
  assumes "json_loads ag (tc_arguments tc) = Some (JObj args)"
    and "dict_get args ''error'' = None"
    and "available_tool_functions ag (tc_name tc) = Some f"
    and "validate_tool_arguments ag (tc_name tc) args = None"
    and "check_note_creation_enforcement st (tc_name tc) args = None"
    and "f args st = (Inr r, st')"
  shows "execute_single_tool_call ag tc st =
    (Inr (), update_note_creation_counters
       (add_tool_result (tc_id tc) (tc_name tc) r
          (dict_get_default args ''is_progress_summary_note'' (JBool False)) st')
       (tc_name tc) args)"
  using assms
  by (simp add: execute_single_tool_call_def parse_tool_arguments_def Let_def)

text \<open>
  Claim C2. With the ceilings of 3: a raw-acquisition action (\<open>search_web\<close>,
  \<open>scrape_webpage\<close>) is rejected exactly when the acquisition counter is at least 3,
  and a \<open>create_note\<close> is rejected exactly when it is not marked as a summary and
  the summary counter is at least 3. The check itself returns a message and writes nothing;
  in \<open>_execute_single_tool_call\<close> a rejection returns normally (no exception) and
  changes the session state only by logging the error as a tool result, the counters being
  untouched. After a tool has run, a raw acquisition increments the acquisition counter,
  a synthesis resets it to zero, and the synthesis resets the summary counter if it is a
  summary and increments it otherwise. So from an acquisition counter of zero three raw
  acquisitions pass, a fourth is rejected, a synthesis passes, and after it a raw
  acquisition passes again.
\<close>

theorem workflow_policy_enforcement:
  "(function_name \<in> RAW_INFO_COLLECTION_TOOLS \<longrightarrow>
      (check_note_creation_enforcement st function_name args \<noteq> None) =
        (3 \<le> raw_info_tool_calls_since_last_note st) \<and>
      update_note_creation_counters st function_name args =
        st\<lparr>raw_info_tool_calls_since_last_note := raw_info_tool_calls_since_last_note st + 1\<rparr>) \<and>
   (check_note_creation_enforcement st ''create_note'' args \<noteq> None) =
     (\<not> truthy (dict_get_default args ''is_progress_summary_note'' (JBool False)) \<and>
      3 \<le> note_calls_since_last_summary st) \<and>
   update_note_creation_counters st ''create_note'' args =
     st\<lparr>raw_info_tool_calls_since_last_note := 0,
        note_calls_since_last_summary :=
          (if truthy (dict_get_default args ''is_progress_summary_note'' (JBool False)) then 0
           else note_calls_since_last_summary st + 1)\<rparr> \<and>
   (json_loads ag (tc_arguments tc) = Some (JObj targs) \<and> dict_get targs ''error'' = None \<and>
    available_tool_functions ag (tc_name tc) = Some f \<and>
    validate_tool_arguments ag (tc_name tc) targs = None \<longrightarrow>
      (case check_note_creation_enforcement st (tc_name tc) targs of
         Some e \<Rightarrow>
           execute_single_tool_call ag tc st =
             (Inr (), st\<lparr>context_list := context_list st @
                [[(''tool_call_id'', JStr (tc_id tc)), (''role'', JStr ''tool''),
                  (''name'', JStr (tc_name tc)), (''content'', JStr e),
                  (''_compact_content'', JStr e)] @
                 (if tc_name tc = ''create_note''
                  then [(''_is_progress_summary_note'', JBool False)] else [])]\<rparr>)
       | None \<Rightarrow>
           (\<forall>r st'. f targs st = (Inr r, st') \<longrightarrow>
              execute_single_tool_call ag tc st =
                (Inr (), update_note_creation_counters
                   (add_tool_result (tc_id tc) (tc_name tc) r
                      (dict_get_default targs ''is_progress_summary_note'' (JBool False)) st')
                   (tc_name tc) targs)))) \<and>
   (raw_info_tool_calls_since_last_note st = 0 \<and> note_calls_since_last_summary st < 3 \<longrightarrow>
      (let s1 = update_note_creation_counters st ''search_web'' a1;
           s2 = update_note_creation_counters s1 ''scrape_webpage'' a2;
           s3 = update_note_creation_counters s2 ''search_web'' a3;
           s4 = update_note_creation_counters s3 ''create_note'' a4
       in check_note_creation_enforcement st ''search_web'' a1 = None \<and>
          check_note_creation_enforcement s1 ''scrape_webpage'' a2 = None \<and>
          check_note_creation_enforcement s2 ''search_web'' a3 = None \<and>
          check_note_creation_enforcement s3 ''search_web'' a5 \<noteq> None \<and>
          check_note_creation_enforcement s3 ''scrape_webpage'' a5 \<noteq> None \<and>
          check_note_creation_enforcement s3 ''create_note'' a4 = None \<and>
          check_note_creation_enforcement s4 ''search_web'' a5 = None))"
proof -
  have raw: "''search_web'' \<in> RAW_INFO_COLLECTION_TOOLS" "''scrape_webpage'' \<in> RAW_INFO_COLLECTION_TOOLS"
    by (simp_all add: RAW_INFO_COLLECTION_TOOLS_def)
  have scen: "raw_info_tool_calls_since_last_note st = 0 \<and> note_calls_since_last_summary st < 3 \<longrightarrow>
      (let s1 = update_note_creation_counters st ''search_web'' a1;
           s2 = update_note_creation_counters s1 ''scrape_webpage'' a2;
           s3 = update_note_creation_counters s2 ''search_web'' a3;
           s4 = update_note_creation_counters s3 ''create_note'' a4
       in check_note_creation_enforcement st ''search_web'' a1 = None \<and>
          check_note_creation_enforcement s1 ''scrape_webpage'' a2 = None \<and>
          check_note_creation_enforcement s2 ''search_web'' a3 = None \<and>
          check_note_creation_enforcement s3 ''search_web'' a5 \<noteq> None \<and>
          check_note_creation_enforcement s3 ''scrape_webpage'' a5 \<noteq> None \<and>
          check_note_creation_enforcement s3 ''create_note'' a4 = None \<and>
          check_note_creation_enforcement s4 ''search_web'' a5 = None)"
    using check_raw_None[OF raw(1)] check_raw_None[OF raw(2)] check_note_None
    by (simp add: Let_def update_raw[OF raw(1)] update_raw[OF raw(2)] update_note)
  have exec: "json_loads ag (tc_arguments tc) = Some (JObj targs) \<and> dict_get targs ''error'' = None \<and>
    available_tool_functions ag (tc_name tc) = Some f \<and>
    validate_tool_arguments ag (tc_name tc) targs = None \<longrightarrow>
      (case check_note_creation_enforcement st (tc_name tc) targs of
         Some e \<Rightarrow>
           execute_single_tool_call ag tc st =
             (Inr (), st\<lparr>context_list := context_list st @
                [[(''tool_call_id'', JStr (tc_id tc)), (''role'', JStr ''tool''),
                  (''name'', JStr (tc_name tc)), (''content'', JStr e),
                  (''_compact_content'', JStr e)] @
                 (if tc_name tc = ''create_note''
                  then [(''_is_progress_summary_note'', JBool False)] else [])]\<rparr>)
       | None \<Rightarrow>
           (\<forall>r st'. f targs st = (Inr r, st') \<longrightarrow>
              execute_single_tool_call ag tc st =
                (Inr (), update_note_creation_counters
                   (add_tool_result (tc_id tc) (tc_name tc) r
                      (dict_get_default targs ''is_progress_summary_note'' (JBool False)) st')
                   (tc_name tc) targs)))"
    using execute_rejected[of ag tc targs f st] execute_accepted[of ag tc targs f st]
    by (auto split: option.split)
  show ?thesis
    using check_raw[of function_name st args] update_raw[of function_name st args]
      check_note[of st args] update_note[of st args] exec scen
    by blast
qed

theorem workflow_policy_enforcement_witness:
  "''search_web'' \<in> RAW_INFO_COLLECTION_TOOLS \<and>
   check_note_creation_enforcement
     (initial_agent_state\<lparr>raw_info_tool_calls_since_last_note := 3\<rparr>) ''search_web'' [] \<noteq> None \<and>
   execute_single_tool_call example_agent (example_call ''search_web'')
     (initial_agent_state\<lparr>raw_info_tool_calls_since_last_note := 3\<rparr>) =
     (Inr (), initial_agent_state\<lparr>raw_info_tool_calls_since_last_note := 3,
        context_list := [[(''tool_call_id'', JStr ''call''), (''role'', JStr ''tool''),
          (''name'', JStr ''search_web''), (''content'', JStr (raw_info_error_msg 3)),
          (''_compact_content'', JStr (raw_info_error_msg 3))]]\<rparr>) \<and>
   (let (r, st) = execute_tool_calls example_agent
        (map example_call [''search_web'', ''search_web'', ''search_web'', ''search_web'',
                           ''create_note'', ''search_web'']) initial_agent_state
    in r = Inr () \<and> raw_info_tool_calls_since_last_note st = 1 \<and>
       note_calls_since_last_summary st = 1 \<and>
       map (\<lambda>m. dict_get m ''content'') (context_list st) =
         map (Some \<circ> JStr) [''f'', ''f'', ''f'', raw_info_error_msg 3, ''f'', ''f''])"
  using workflow_policy_enforcement[of "''search_web''"
      "initial_agent_state\<lparr>raw_info_tool_calls_since_last_note := 3\<rparr>" "[]"
      example_agent "example_call ''search_web''" "[]"
      "\<lambda>_ st. (Inr \<lparr>compact = ''c'', full = ''f''\<rparr>, st)"
      "[]" "[]" "[]" "[]" "[]"]
  by (simp add: RAW_INFO_COLLECTION_TOOLS_def initial_agent_state_def example_agent_def
        example_call_def check_note_creation_enforcement_def update_note_creation_counters_def
        execute_single_tool_call_def parse_tool_arguments_def add_tool_result_def
        dict_get_def dict_get_default_def MAX_RAW_INFO_TOOL_CALLS_BEFORE_NOTE_def
        MAX_NOTE_CALLS_BEFORE_SUMMARY_def Let_def)

subsection \<open>Generation view\<close>

lemma last_index_None: "(last_index P xs = None) = (\<forall>k<length xs. \<not> P (xs ! k))"
proof (induction xs)
  case Nil then show ?case by simp
next
  case (Cons x xs)
  show ?case
  proof (cases "last_index P xs")
    case None
    with Cons have no: "\<forall>k<length xs. \<not> P (xs ! k)" by simp
    have "(\<forall>k<length (x # xs). \<not> P ((x # xs) ! k)) = (\<not> P x)"
      using no by (auto simp: nth_Cons split: nat.splits)
    with None show ?thesis by simp
  next
    case (Some l)
    with Cons obtain k where "k < length xs" "P (xs ! k)" by auto
    then have "Suc k < length (x # xs) \<and> P ((x # xs) ! Suc k)" by simp
    with Some show ?thesis by (metis option.simps(5) option.distinct(1) last_index.simps(2))
  qed
qed

lemma last_index_Some:
  "last_index P xs = Some j \<Longrightarrow>
   j < length xs \<and> P (xs ! j) \<and> (\<forall>k. j < k \<and> k < length xs \<longrightarrow> \<not> P (xs ! k))"
proof (induction xs arbitrary: j)
  case Nil then show ?case by simp
next
  case (Cons x xs)
  show ?case
  proof (cases "last_index P xs")
    case None
    then have no: "\<forall>k<length xs. \<not> P (xs ! k)" by (simp add: last_index_None)
    from None Cons.prems have j: "j = 0" "P x" by (auto split: if_splits)
    show ?thesis using j no by (auto simp: nth_Cons split: nat.splits)
  next
    case (Some l)
    with Cons.prems have j: "j = Suc l" by simp
    from Cons.IH[OF Some] show ?thesis unfolding j
      by (auto simp: nth_Cons split: nat.splits)
  qed
qed

lemma occurs_before_last_iff:
  "occurs_before_last P xs i = (case last_index P xs of Some l \<Rightarrow> i < l | None \<Rightarrow> False)"
proof (cases "last_index P xs")
  case None
  then have "\<forall>k<length xs. \<not> P (xs ! k)" by (simp add: last_index_None)
  then have "\<not> occurs_before_last P xs i" by (auto simp: occurs_before_last_def)
  with None show ?thesis by simp
next
  case (Some l)
  from last_index_Some[OF Some] have l: "l < length xs" "P (xs ! l)"
    and after: "\<forall>k. l < k \<and> k < length xs \<longrightarrow> \<not> P (xs ! k)" by auto
  have "occurs_before_last P xs i = (i < l)"
  proof
    assume "occurs_before_last P xs i"
    then obtain j where j: "i < j" "j < length xs" "P (xs ! j)"
      by (auto simp: occurs_before_last_def)
    with after have "\<not> l < j" by blast
    with j show "i < l" by simp
  next
    assume "i < l"
    with l show "occurs_before_last P xs i"
      by (auto simp: occurs_before_last_def)
  qed
  with Some show ?thesis by simp
qed

lemma find_last_indices_eq:
  "find_last_indices msgs i (a, b) =
     (case last_index is_create_note_result msgs of None \<Rightarrow> a | Some j \<Rightarrow> i + int j,
      case last_index is_summary_result msgs of None \<Rightarrow> b | Some j \<Rightarrow> i + int j)"
proof (induction msgs arbitrary: i a b)
  case Nil then show ?case by simp
next
  case (Cons msg msgs)
  have c: "(is_tool_msg msg \<and> dict_get msg ''name'' = Some (JStr ''create_note'')) =
      is_create_note_result msg"
    by (simp add: is_create_note_result_def)
  have s: "is_summary_result msg =
      (is_create_note_result msg \<and>
       truthy (dict_get_default msg ''_is_progress_summary_note'' (JBool False)))"
    by (simp add: is_summary_result_def)
  show ?case
    by (simp add: Cons.IH c s split: option.splits)
qed

lemma raw_not_create_note: "is_raw_result m \<Longrightarrow> \<not> is_create_note_result m"
  by (auto simp: is_raw_result_def is_create_note_result_def)

lemma clean_message_tool:
  assumes t: "is_tool_msg m" and wf: "wf_tool_msg m"
  shows "\<exists>v. clean_message idx i m = Inr v \<and>
     renders v (if (is_raw_result m \<and> fst idx \<noteq> - 1 \<and> i < fst idx) \<or>
                   (is_create_note_result m \<and> snd idx \<noteq> - 1 \<and> i < snd idx)
                then ''_compact_content'' else ''content'') m"
proof -
  from wf obtain n a c cc where n: "dict_get m ''name'' = Some (JStr n)"
    and a: "dict_get m ''tool_call_id'' = Some a"
    and c: "dict_get m ''content'' = Some c"
    and cc: "dict_get m ''_compact_content'' = Some cc"
    by (auto simp: wf_tool_msg_def split: option.splits jval.splits)
  from t have r: "dict_get m ''role'' = Some (JStr ''tool'')" by (simp add: is_tool_msg_def)
  have u: "use_compact idx i m =
      Inr ((is_raw_result m \<and> fst idx \<noteq> - 1 \<and> i < fst idx) \<or>
           (is_create_note_result m \<and> snd idx \<noteq> - 1 \<and> i < snd idx))"
    using n t
    by (auto simp: use_compact_def Let_def is_raw_result_def is_create_note_result_def
          RAW_INFO_COLLECTION_TOOLS_def)
  show ?thesis
    using t n a c cc r
    by (simp add: clean_message_def u dict_item_def dict_get_def renders_def)
qed

lemma build_messages_ok:
  assumes "wf_history msgs"
  shows "\<exists>view. build_messages idx i msgs = Inr view \<and> length view = length msgs \<and>
           (\<forall>k<length msgs. clean_message idx (i + int k) (msgs ! k) = Inr (view ! k))"
  using assms
proof (induction msgs arbitrary: i)
  case Nil then show ?case by simp
next
  case (Cons m msgs)
  have "\<exists>v. clean_message idx i m = Inr v"
  proof (cases "is_tool_msg m")
    case True
    with Cons.prems have "wf_tool_msg m" by (simp add: wf_history_def)
    from clean_message_tool[OF True this] show ?thesis by blast
  next
    case False then show ?thesis by (simp add: clean_message_def)
  qed
  then obtain v where v: "clean_message idx i m = Inr v" by blast
  from Cons.prems have "wf_history msgs" by (simp add: wf_history_def)
  from Cons.IH[OF this, of "i + 1"] obtain view where
    view: "build_messages idx (i + 1) msgs = Inr view" "length view = length msgs"
      "\<forall>k<length msgs. clean_message idx (i + 1 + int k) (msgs ! k) = Inr (view ! k)"
    by blast
  have "\<forall>k<length (m # msgs). clean_message idx (i + int k) ((m # msgs) ! k) = Inr ((v # view) ! k)"
  proof (intro allI impI)
    fix k assume "k < length (m # msgs)"
    then show "clean_message idx (i + int k) ((m # msgs) ! k) = Inr ((v # view) ! k)"
      using v view(3) by (cases k) (auto simp: algebra_simps)
  qed
  with v view show ?case by simp
qed

lemma generation_view_entries:
  assumes wf: "wf_history (context_list st)"
  shows "\<exists>view. prepare_messages_for_llm st = (Inr view, st) \<and>
           length view = length (context_list st) \<and>
           (\<forall>i<length (context_list st).
              (\<not> is_tool_msg (context_list st ! i) \<longrightarrow> view ! i = context_list st ! i) \<and>
              (is_tool_msg (context_list st ! i) \<longrightarrow>
                 (if spec_compact (context_list st) i
                  then rendered_compact (view ! i) (context_list st ! i)
                  else rendered_full (view ! i) (context_list st ! i))))"
proof -
  define ctx where "ctx = context_list st"
  define idx where "idx = find_last_indices ctx 0 (- 1, - 1)"
  have idx1: "fst idx = (case last_index is_create_note_result ctx of None \<Rightarrow> - 1 | Some j \<Rightarrow> int j)"
    and idx2: "snd idx = (case last_index is_summary_result ctx of None \<Rightarrow> - 1 | Some j \<Rightarrow> int j)"
    by (simp_all add: idx_def find_last_indices_eq split: option.splits)
  have c1: "(fst idx \<noteq> - 1 \<and> int i < fst idx) = occurs_before_last is_create_note_result ctx i" for i
    by (simp add: idx1 occurs_before_last_iff split: option.splits)
  have c2: "(snd idx \<noteq> - 1 \<and> int i < snd idx) = occurs_before_last is_summary_result ctx i" for i
    by (simp add: idx2 occurs_before_last_iff split: option.splits)
  from build_messages_ok[OF wf, of idx 0] obtain view where
    view: "build_messages idx 0 ctx = Inr view" "length view = length ctx"
      "\<forall>k<length ctx. clean_message idx (int k) (ctx ! k) = Inr (view ! k)"
    by (auto simp: ctx_def)
  have "(\<not> is_tool_msg (ctx ! i) \<longrightarrow> view ! i = ctx ! i) \<and>
        (is_tool_msg (ctx ! i) \<longrightarrow>
           (if spec_compact ctx i then rendered_compact (view ! i) (ctx ! i)
            else rendered_full (view ! i) (ctx ! i)))" if i: "i < length ctx" for i
  proof (cases "is_tool_msg (ctx ! i)")
    case False
    with view(3) i show ?thesis by (auto simp: clean_message_def)
  next
    case True
    from i have "ctx ! i \<in> set ctx" by simp
    with wf True have "wf_tool_msg (ctx ! i)" by (simp add: wf_history_def ctx_def)
    from clean_message_tool[OF True this, of idx "int i"] view(3) i
    have "renders (view ! i)
        (if (is_raw_result (ctx ! i) \<and> fst idx \<noteq> - 1 \<and> int i < fst idx) \<or>
            (is_create_note_result (ctx ! i) \<and> snd idx \<noteq> - 1 \<and> int i < snd idx)
         then ''_compact_content'' else ''content'') (ctx ! i)"
      by auto
    moreover have "((is_raw_result (ctx ! i) \<and> fst idx \<noteq> - 1 \<and> int i < fst idx) \<or>
            (is_create_note_result (ctx ! i) \<and> snd idx \<noteq> - 1 \<and> int i < snd idx)) =
          spec_compact ctx i"
      using c1[of i] c2[of i] raw_not_create_note[of "ctx ! i"]
      by (auto simp: spec_compact_def)
    ultimately have "renders (view ! i)
        (if spec_compact ctx i then ''_compact_content'' else ''content'') (ctx ! i)"
      by simp
    then show ?thesis using True
      by (auto simp: rendered_compact_def rendered_full_def split: if_splits)
  qed
  with view(1,2) show ?thesis
    by (simp add: prepare_messages_for_llm_def ctx_def[symmetric] idx_def[symmetric])
qed

lemmas example_defs =
  example_history_def example_history_view_def example_two_notes_def example_two_notes_view_def
  view_entry_def initial_agent_state_def add_tool_result_def Let_def

lemmas view_defs =
  prepare_messages_for_llm_def clean_message_def use_compact_def dict_item_def dict_get_def
  dict_get_default_def is_tool_msg_def RAW_INFO_COLLECTION_TOOLS_def

text \<open>
  Claim C1. For every history whose tool results carry the keys \<open>_add_tool_result\<close>
  writes, \<open>_prepare_messages_for_llm\<close> returns a view of the same length in which
  every entry that is not a tool result is passed as it is, a \<open>search_web\<close> or
  \<open>scrape_webpage\<close> result is rendered compact iff it occurs before the most recent
  \<open>create_note\<close> result, a \<open>create_note\<close> result is rendered compact iff it
  occurs before the most recent summary \<open>create_note\<close> result, and every other tool
  result is rendered full; the agent state, and with it the persisted history, is returned
  unchanged.
\<close>

theorem generation_view:
  assumes "wf_history (context_list st)"
  shows "\<exists>view. prepare_messages_for_llm st = (Inr view, st) \<and>
           length view = length (context_list st) \<and>
           (\<forall>i<length (context_list st).
              (\<not> is_tool_msg (context_list st ! i) \<longrightarrow> view ! i = context_list st ! i) \<and>
              (is_tool_msg (context_list st ! i) \<longrightarrow>
                 (if spec_compact (context_list st) i
                  then rendered_compact (view ! i) (context_list st ! i)
                  else rendered_full (view ! i) (context_list st ! i))))"
  using assms by (rule generation_view_entries)

theorem generation_view_witness:
  "wf_history (context_list example_history) \<and>
   prepare_messages_for_llm example_history = (Inr example_history_view, example_history)"
  using generation_view[of example_history]
  by (simp add: wf_history_def wf_tool_msg_def example_defs view_defs)

text \<open>
  Claim C4 as stated fails: in a history of two notes of which neither is a summary, the
  earlier note is not the most recent synthesis result, and it is rendered full, not compact.
\<close>

theorem synthesis_rendering_counterexample:
  "fst (prepare_messages_for_llm example_two_notes) = Inr example_two_notes_view \<and>
   is_create_note_result (context_list example_two_notes ! 0) \<and>
   last_index is_create_note_result (context_list example_two_notes) = Some 1 \<and>
   rendered_full (example_two_notes_view ! 0) (context_list example_two_notes ! 0) \<and>
   \<not> rendered_compact (example_two_notes_view ! 0) (context_list example_two_notes ! 0)"
  by (simp add: example_defs view_defs is_create_note_result_def rendered_full_def
        rendered_compact_def renders_def)

text \<open>
  Claim C4, amended. For every generation view of a well-formed history, the most recent
  synthesis result and the most recent summary result are rendered full, and a synthesis
  result (summary or not) is rendered compact iff it occurs before the most recent summary
  result; the synthesis results after the most recent summary, of which there may be
  several, are all rendered full.
\<close>

theorem synthesis_rendering:
  assumes wf: "wf_history (context_list st)"
  shows "\<exists>view. prepare_messages_for_llm st = (Inr view, st) \<and>
     (\<forall>l. last_index is_create_note_result (context_list st) = Some l \<longrightarrow>
          rendered_full (view ! l) (context_list st ! l)) \<and>
     (\<forall>s. last_index is_summary_result (context_list st) = Some s \<longrightarrow>
          rendered_full (view ! s) (context_list st ! s)) \<and>
     (\<forall>i<length (context_list st). is_create_note_result (context_list st ! i) \<longrightarrow>
          (if occurs_before_last is_summary_result (context_list st) i
           then rendered_compact (view ! i) (context_list st ! i)
           else rendered_full (view ! i) (context_list st ! i)))"
proof -
  define ctx where "ctx = context_list st"
  from generation_view_entries[OF wf] obtain view where
    prep: "prepare_messages_for_llm st = (Inr view, st)"
    and ent: "\<forall>i<length ctx. is_tool_msg (ctx ! i) \<longrightarrow>
                 (if spec_compact ctx i then rendered_compact (view ! i) (ctx ! i)
                  else rendered_full (view ! i) (ctx ! i))"
    unfolding ctx_def by blast
  have nres: "if occurs_before_last is_summary_result ctx i
           then rendered_compact (view ! i) (ctx ! i) else rendered_full (view ! i) (ctx ! i)"
    if "i < length ctx" "is_create_note_result (ctx ! i)" for i
  proof -
    from that(2) have "is_tool_msg (ctx ! i)" "\<not> is_raw_result (ctx ! i)"
      using raw_not_create_note by (auto simp: is_create_note_result_def)
    with that ent show ?thesis by (simp add: spec_compact_def)
  qed
  have last_note: "rendered_full (view ! l) (ctx ! l)"
    if l: "last_index is_create_note_result ctx = Some l" for l
  proof -
    from last_index_Some[OF l] have l': "l < length ctx" "is_create_note_result (ctx ! l)"
      and after: "\<forall>k. l < k \<and> k < length ctx \<longrightarrow> \<not> is_create_note_result (ctx ! k)" by auto
    have "\<not> occurs_before_last is_summary_result ctx l"
      using after by (auto simp: occurs_before_last_def is_summary_result_def)
    with nres[OF l'] show ?thesis by simp
  qed
  have last_sum: "rendered_full (view ! s) (ctx ! s)"
    if s: "last_index is_summary_result ctx = Some s" for s
  proof -
    from last_index_Some[OF s] have s': "s < length ctx" "is_summary_result (ctx ! s)"
      and after: "\<forall>k. s < k \<and> k < length ctx \<longrightarrow> \<not> is_summary_result (ctx ! k)" by auto
    have "\<not> occurs_before_last is_summary_result ctx s"
      using after by (auto simp: occurs_before_last_def)
    moreover from s' have "is_create_note_result (ctx ! s)" by (simp add: is_summary_result_def)
    ultimately show ?thesis using nres[OF s'(1)] by simp
  qed
  from prep nres last_note last_sum show ?thesis unfolding ctx_def by blast
qed

theorem synthesis_rendering_witness:
  "wf_history (context_list example_two_notes) \<and>
   prepare_messages_for_llm example_two_notes = (Inr example_two_notes_view, example_two_notes) \<and>
   last_index is_create_note_result (context_list example_two_notes) = Some 1 \<and>
   rendered_full (example_two_notes_view ! 1) (context_list example_two_notes ! 1) \<and>
   rendered_full (example_two_notes_view ! 0) (context_list example_two_notes ! 0)"
  using synthesis_rendering[of example_two_notes]
  by (simp add: wf_history_def wf_tool_msg_def example_defs view_defs is_create_note_result_def
        rendered_full_def renders_def)

subsection \<open>Artifact store\<close>

lemma digit_char_props:
  "d < 10 \<Longrightarrow> is_digit (digit_char d) \<and> digit_value (digit_char d) = d"
  by (simp add: digit_char_def is_digit_def digit_value_def)

lemma nat_of_digits_snoc:
  "nat_of_digits (s @ [c]) = 10 * nat_of_digits s + digit_value c"
  by (simp add: nat_of_digits_def)

lemma str_of_nat_props:
  "str_of_nat n \<noteq> [] \<and> list_all is_digit (str_of_nat n) \<and> nat_of_digits (str_of_nat n) = n"
proof (induction n rule: str_of_nat.induct)
  case (1 n)
  show ?case
  proof (cases "n < 10")
    case True
    then show ?thesis
      using digit_char_props[of n]
      by (subst (1 2 3) str_of_nat.simps) (simp add: nat_of_digits_def)
  next
    case False
    with 1 have ih: "str_of_nat (n div 10) \<noteq> []" "list_all is_digit (str_of_nat (n div 10))"
      "nat_of_digits (str_of_nat (n div 10)) = n div 10" by auto
    have d: "is_digit (digit_char (n mod 10))" "digit_value (digit_char (n mod 10)) = n mod 10"
      using digit_char_props[of "n mod 10"] by auto
    show ?thesis
      using False ih d
      by (subst (1 2 3) str_of_nat.simps) (simp add: nat_of_digits_snoc)
  qed
qed

lemma py_int_str_of_nat: "py_int (str_of_nat n) = Inr n"
  using str_of_nat_props[of n] by (simp add: py_int_def)

lemma str_of_nat_inj: "str_of_nat n = str_of_nat m \<Longrightarrow> n = m"
  using str_of_nat_props[of n] str_of_nat_props[of m] by metis

lemma canonical_id_str_of_nat: "canonical_id (str_of_nat n)"
  by (simp add: canonical_id_def py_int_str_of_nat)

lemma canonical_idD: "canonical_id k \<Longrightarrow> py_int k = Inr (nat_of_digits k) \<and> str_of_nat (nat_of_digits k) = k"
  by (auto simp: canonical_id_def py_int_def split: if_splits)

lemma fold_delete_filter:
  "fold AList.delete ks xs = filter (\<lambda>(k, v). k \<notin> set ks) xs"
proof (induction ks arbitrary: xs)
  case Nil then show ?case by simp
next
  case (Cons k ks)
  have "fold AList.delete (k # ks) xs = fold AList.delete ks (AList.delete k xs)" by simp
  also have "\<dots> = filter (\<lambda>(k', v). k' \<notin> set ks) (AList.delete k xs)" by (rule Cons.IH)
  also have "\<dots> = filter (\<lambda>(k', v). k' \<notin> set (k # ks)) xs"
    unfolding AList.delete_eq filter_filter by (rule filter_cong) auto
  finally show ?case .
qed

lemma remove_in_progress:
  assumes "distinct (map fst xs)"
  shows "fold AList.delete (map fst (filter (\<lambda>(k, c). status c = InProgress) xs)) xs =
         filter (\<lambda>(k, c). status c \<noteq> InProgress) xs"
proof -
  have "(k \<notin> set (map fst (filter (\<lambda>(k, c). status c = InProgress) xs))) = (status c \<noteq> InProgress)"
    if "(k, c) \<in> set xs" for k c
  proof
    assume "k \<notin> set (map fst (filter (\<lambda>(k, c). status c = InProgress) xs))"
    with that show "status c \<noteq> InProgress" by force
  next
    assume n: "status c \<noteq> InProgress"
    show "k \<notin> set (map fst (filter (\<lambda>(k, c). status c = InProgress) xs))"
    proof
      assume "k \<in> set (map fst (filter (\<lambda>(k, c). status c = InProgress) xs))"
      then obtain c' where "(k, c') \<in> set xs" "status c' = InProgress" by auto
      with assms that have "c' = c" by (meson eq_key_imp_eq_value)
      with n \<open>status c' = InProgress\<close> show False by simp
    qed
  qed
  then show ?thesis
    unfolding fold_delete_filter by (intro filter_cong) auto
qed

lemma max_int_keys_canonical:
  assumes "ks \<noteq> []" "\<forall>k\<in>set ks. canonical_id k"
  shows "\<exists>k\<in>set ks. max_int_keys ks = Inr (nat_of_digits k) \<and>
           (\<forall>k'\<in>set ks. nat_of_digits k' \<le> nat_of_digits k)"
  using assms
proof (induction ks rule: max_int_keys.induct)
  case 1 then show ?case by simp
next
  case (2 k) then show ?case using canonical_idD[of k] by simp
next
  case (3 k v va)
  from 3(3) have k: "py_int k = Inr (nat_of_digits k)" using canonical_idD[of k] by simp
  have "\<exists>k\<in>set (v # va). max_int_keys (v # va) = Inr (nat_of_digits k) \<and>
           (\<forall>k'\<in>set (v # va). nat_of_digits k' \<le> nat_of_digits k)"
    using 3(1)[OF k] 3(3) by simp
  then obtain m where m: "m \<in> set (v # va)" "max_int_keys (v # va) = Inr (nat_of_digits m)"
    "\<forall>k'\<in>set (v # va). nat_of_digits k' \<le> nat_of_digits m" by blast
  from 3(3) have k2: "py_int k = Inr (nat_of_digits k)" using canonical_idD[of k] by simp
  show ?case
  proof (cases "nat_of_digits m \<le> nat_of_digits k")
    case True
    with m k show ?thesis by (intro bexI[of _ k]) (auto simp: max_def)
  next
    case False
    with m k show ?thesis by (intro bexI[of _ m]) (auto simp: max_def)
  qed
qed

lemma cleanup_result:
  assumes dist: "distinct (map fst (card_dict st))"
    and ids: "\<forall>k\<in>set (map fst (card_dict st)). canonical_id k"
  shows "\<exists>st'. cleanup_interrupted_states st = (Inr (), st') \<and>
     card_dict st' = filter (\<lambda>(k, c). status c \<noteq> InProgress) (card_dict st) \<and>
     (if latest_in_progress st then latest_is_highest st'
      else latest_card_id st' = latest_card_id st)"
proof -
  define cards' where "cards' = filter (\<lambda>(k, c). status c \<noteq> InProgress) (card_dict st)"
  have rem: "fold AList.delete (map fst (filter (\<lambda>(k, c). status c = InProgress) (card_dict st)))
               (card_dict st) = cards'"
    unfolding cards'_def by (rule remove_in_progress[OF dist])
  have lip: "(case latest_card_id st of None \<Rightarrow> False
             | Some l \<Rightarrow> l \<in> set (map fst (filter (\<lambda>(k, c). status c = InProgress) (card_dict st)))) =
             latest_in_progress st"
    by (simp add: latest_in_progress_def split: option.splits)
  show ?thesis
  proof (cases "latest_in_progress st")
    case False
    then show ?thesis
      unfolding cleanup_interrupted_states_def Let_def lip rem by (simp add: cards'_def)
  next
    case True
    show ?thesis
    proof (cases "cards' = []")
      case True
      with \<open>latest_in_progress st\<close> show ?thesis
        unfolding cleanup_interrupted_states_def Let_def lip rem
        by (simp add: latest_is_highest_def cards'_def)
    next
      case False
      have "\<forall>k\<in>set (map fst cards'). canonical_id k" using ids by (auto simp: cards'_def)
      from max_int_keys_canonical[OF _ this] False obtain k where
        k: "k \<in> set (map fst cards')" "max_int_keys (map fst cards') = Inr (nat_of_digits k)"
           "\<forall>k'\<in>set (map fst cards'). nat_of_digits k' \<le> nat_of_digits k"
        by auto
      from k(1) ids have "str_of_nat (nat_of_digits k) = k"
        using canonical_idD[of k] by (auto simp: cards'_def)
      with k have "is_highest_id cards' (str_of_nat (nat_of_digits k))"
        by (simp add: is_highest_id_def)
      with False \<open>latest_in_progress st\<close> k(2) show ?thesis
        unfolding cleanup_interrupted_states_def Let_def lip rem
        by (simp add: latest_is_highest_def cards'_def[symmetric])
    qed
  qed
qed

lemma update_fresh: "k \<notin> fst ` set xs \<Longrightarrow> AList.update k v xs = xs @ [(k, v)]"
  by (induction xs) auto

lemma dense_distinct_canonical:
  assumes "dense_ids st"
  shows "distinct (map fst (card_dict st))" "\<forall>k\<in>set (map fst (card_dict st)). canonical_id k"
proof -
  from assms have m: "map fst (card_dict st) = map str_of_nat [1..<Suc (length (card_dict st))]"
    by (simp add: dense_ids_def)
  have "inj_on str_of_nat A" for A by (auto intro: inj_onI dest: str_of_nat_inj)
  then show "distinct (map fst (card_dict st))"
    unfolding m by (simp add: distinct_map)
  show "\<forall>k\<in>set (map fst (card_dict st)). canonical_id k"
    unfolding m using canonical_id_str_of_nat by auto
qed

text \<open>
  Claim C5 as stated fails: a card created under the generated id \<open>"2"\<close> and still in
  progress is removed by the interrupt cleanup, and the next generated id is \<open>"2"\<close>
  again, the id of a card created earlier in the session.
\<close>

theorem card_id_reuse_counterexample:
  "generate_card_id example_store_1 = ''2'' \<and>
   map fst (card_dict example_store_2) = [''1'', ''2''] \<and>
   fst (cleanup_interrupted_states example_store_2) = Inr () \<and>
   map fst (card_dict (snd (cleanup_interrupted_states example_store_2))) = [''1''] \<and>
   generate_card_id (snd (cleanup_interrupted_states example_store_2)) = ''2''"
  by code_simp

text \<open>
  Claim C5, amended. In a store whose ids are \<open>"1"\<close> to \<open>"n"\<close> in the order of
  creation, the newly generated id is \<open>"n+1"\<close>: it is numerically greater than, and
  so different from, every id in the store; adding a card under it keeps the store in that
  form, and so does an interrupt cleanup when the cards in progress are the most recently
  created ones. Ids are unique among the cards in the store, not over the session: the id of
  a card that cleanup removed is generated again.
\<close>

theorem card_ids_in_dense_store:
  assumes dense: "dense_ids st"
  shows "generate_card_id st \<notin> set (map fst (card_dict st)) \<and>
     (\<forall>k\<in>set (map fst (card_dict st)). nat_of_digits k < nat_of_digits (generate_card_id st)) \<and>
     (card_id c = generate_card_id st \<longrightarrow> dense_ids (add_info_card c st)) \<and>
     (\<forall>finished progressing.
        card_dict st = finished @ progressing \<and>
        (\<forall>(k, cd)\<in>set finished. status cd \<noteq> InProgress) \<and>
        (\<forall>(k, cd)\<in>set progressing. status cd = InProgress) \<longrightarrow>
        (\<exists>st'. cleanup_interrupted_states st = (Inr (), st') \<and> card_dict st' = finished \<and>
               dense_ids st'))"
proof -
  define n where "n = length (card_dict st)"
  from dense have m: "map fst (card_dict st) = map str_of_nat [1..<Suc n]"
    by (simp add: dense_ids_def n_def)
  have g: "generate_card_id st = str_of_nat (Suc n)" by (simp add: generate_card_id_def n_def)
  have fresh: "generate_card_id st \<notin> set (map fst (card_dict st))"
    unfolding m g by (auto dest: str_of_nat_inj)
  have less: "\<forall>k\<in>set (map fst (card_dict st)). nat_of_digits k < nat_of_digits (generate_card_id st)"
    unfolding m g using str_of_nat_props by auto
  have add: "dense_ids (add_info_card c st)" if c: "card_id c = generate_card_id st"
  proof -
    from fresh have "AList.update (card_id c) c (card_dict st) = card_dict st @ [(card_id c, c)]"
      unfolding c by (intro update_fresh) simp
    then show ?thesis
      using m c g by (simp add: dense_ids_def add_info_card_def n_def)
  qed
  have clean: "\<exists>st'. cleanup_interrupted_states st = (Inr (), st') \<and> card_dict st' = finished \<and>
                 dense_ids st'"
    if sp: "card_dict st = finished @ progressing"
      and f: "\<forall>(k, cd)\<in>set finished. status cd \<noteq> InProgress"
      and p: "\<forall>(k, cd)\<in>set progressing. status cd = InProgress" for finished progressing
  proof -
    from cleanup_result[OF dense_distinct_canonical[OF dense]] obtain st' where
      r: "cleanup_interrupted_states st = (Inr (), st')"
      and c: "card_dict st' = filter (\<lambda>(k, c). status c \<noteq> InProgress) (card_dict st)"
      by blast
    have "filter (\<lambda>(k, c). status c \<noteq> InProgress) finished = finished"
      using f by (intro filter_True) auto
    moreover have "filter (\<lambda>(k, c). status c \<noteq> InProgress) progressing = []"
      using p by (intro filter_False) auto
    ultimately have c': "card_dict st' = finished" using c sp by simp
    have "map fst finished = take (length finished) (map fst (card_dict st))" using sp by simp
    also have "\<dots> = map str_of_nat (take (length finished) [1..<Suc n])"
      unfolding m by (simp add: take_map)
    also have "take (length finished) [1..<Suc n] = [1..<1 + length finished]"
      by (rule take_upt) (simp add: sp n_def)
    finally have "map fst finished = map str_of_nat [1..<Suc (length finished)]"
      by (simp del: upt_Suc)
    then have "dense_ids st'" by (simp add: dense_ids_def c' del: upt_Suc)
    with r c' show ?thesis by blast
  qed
  from fresh less add clean show ?thesis by blast
qed

theorem card_ids_in_dense_store_witness:
  "dense_ids example_store_2 \<and>
   generate_card_id example_store_2 = ''3'' \<and>
   ''3'' \<notin> set (map fst (card_dict example_store_2)) \<and>
   dense_ids (add_info_card (example_card ''3'' Completed) example_store_2) \<and>
   dense_ids (snd (cleanup_interrupted_states example_store_2))"
proof -
  have d: "dense_ids example_store_2" by code_simp
  have g: "generate_card_id example_store_2 = ''3''" by code_simp
  have c: "card_id (example_card ''3'' Completed) = generate_card_id example_store_2" by code_simp
  have s: "card_dict example_store_2 =
      [(''1'', example_card ''1'' Completed)] @ [(''2'', example_card ''2'' InProgress)] \<and>
      (\<forall>(k, cd)\<in>set [(''1'', example_card ''1'' Completed)]. status cd \<noteq> InProgress) \<and>
      (\<forall>(k, cd)\<in>set [(''2'', example_card ''2'' InProgress)]. status cd = InProgress)"
    by code_simp
  note t = card_ids_in_dense_store[OF d, of "example_card ''3'' Completed"]
  from t have f: "generate_card_id example_store_2 \<notin> set (map fst (card_dict example_store_2))"
    by blast
  from t c have a: "dense_ids (add_info_card (example_card ''3'' Completed) example_store_2)"
    by blast
  from t s obtain st' where "cleanup_interrupted_states example_store_2 = (Inr (), st')"
    "dense_ids st'" by blast
  with d g f a show ?thesis by simp
qed

text \<open>
  Claim C6 as stated fails: cleanup leaves the latest-card pointer alone unless it names a
  removed card. In a store with the ids 1, 3, 5 and 4, none in progress, whose pointer is
  \<open>"4"\<close>, the pointer stays \<open>"4"\<close> although the highest id is \<open>"5"\<close>.
\<close>

theorem latest_pointer_counterexample:
  "cleanup_interrupted_states example_store_gap =
     (Inr (), example_store_gap\<lparr>chat_list := [interrupted_msg]\<rparr>) \<and>
   latest_card_id example_store_gap = Some ''4'' \<and>
   ''5'' \<in> fst ` set (card_dict example_store_gap) \<and>
   nat_of_digits ''4'' < nat_of_digits ''5''"
  by code_simp

text \<open>
  Claim C6, amended. For a store with distinct ids that are decimal numbers, cleanup returns
  normally, removes exactly the cards in progress, and, if the latest-card pointer named a
  removed card, sets the pointer to the highest id of the remaining cards, or to none if no
  card remains; otherwise the pointer is left as it was. So a pointer that named the highest
  id before cleanup names the highest remaining id after it; and for a single card in
  progress with the pointer on it, the store is empty and the pointer is none afterwards.
\<close>

theorem interrupt_cleanup:
  assumes dist: "distinct (map fst (card_dict st))"
    and ids: "\<forall>k\<in>set (map fst (card_dict st)). canonical_id k"
  shows "\<exists>st'. cleanup_interrupted_states st = (Inr (), st') \<and>
     card_dict st' = filter (\<lambda>(k, c). status c \<noteq> InProgress) (card_dict st) \<and>
     (if latest_in_progress st then latest_is_highest st'
      else latest_card_id st' = latest_card_id st) \<and>
     (latest_is_highest st \<longrightarrow> latest_is_highest st') \<and>
     (\<forall>x c. card_dict st = [(x, c)] \<and> status c = InProgress \<and> latest_card_id st = Some x \<longrightarrow>
        card_dict st' = [] \<and> latest_card_id st' = None)"
proof -
  from cleanup_result[OF dist ids] obtain st' where
    r: "cleanup_interrupted_states st = (Inr (), st')"
    and c: "card_dict st' = filter (\<lambda>(k, c). status c \<noteq> InProgress) (card_dict st)"
    and l: "if latest_in_progress st then latest_is_highest st'
            else latest_card_id st' = latest_card_id st"
    by blast
  have inv: "latest_is_highest st'" if h: "latest_is_highest st"
  proof (cases "latest_in_progress st")
    case True with l show ?thesis by simp
  next
    case False
    with l have same: "latest_card_id st' = latest_card_id st" by simp
    show ?thesis
    proof (cases "latest_card_id st")
      case None
      with h same c show ?thesis by (simp add: latest_is_highest_def)
    next
      case (Some k)
      with h have hk: "is_highest_id (card_dict st) k" by (simp add: latest_is_highest_def)
      then obtain cd where cd: "(k, cd) \<in> set (card_dict st)" by (auto simp: is_highest_id_def)
      have "status cd \<noteq> InProgress"
      proof
        assume "status cd = InProgress"
        with cd have "k \<in> fst ` set (filter (\<lambda>(k, c). status c = InProgress) (card_dict st))"
          by force
        with Some False show False by (simp add: latest_in_progress_def)
      qed
      with cd have "k \<in> fst ` set (card_dict st')" unfolding c by force
      moreover have "\<forall>k'\<in>fst ` set (card_dict st'). nat_of_digits k' \<le> nat_of_digits k"
        using hk unfolding c by (auto simp: is_highest_id_def)
      ultimately show ?thesis using Some same by (simp add: latest_is_highest_def is_highest_id_def)
    qed
  qed
  have single: "card_dict st' = [] \<and> latest_card_id st' = None"
    if "card_dict st = [(x, cd)]" "status cd = InProgress" "latest_card_id st = Some x" for x cd
  proof -
    from that have e: "card_dict st' = []" unfolding c by simp
    from that have "latest_in_progress st" by (simp add: latest_in_progress_def)
    with l have "latest_is_highest st'" by simp
    with e show ?thesis by (auto simp: latest_is_highest_def is_highest_id_def split: option.splits)
  qed
  from r c l inv single show ?thesis by blast
qed

theorem interrupt_cleanup_witness:
  "distinct (map fst (card_dict example_store_single)) \<and>
   list_all canonical_id (map fst (card_dict example_store_single)) \<and>
   card_dict example_store_single = [(''1'', example_card ''1'' InProgress)] \<and>
   latest_card_id example_store_single = Some ''1'' \<and>
   fst (cleanup_interrupted_states example_store_single) = Inr () \<and>
   card_dict (snd (cleanup_interrupted_states example_store_single)) = [] \<and>
   latest_card_id (snd (cleanup_interrupted_states example_store_single)) = None"
proof -
  have d: "distinct (map fst (card_dict example_store_single))" by code_simp
  have i: "\<forall>k\<in>set (map fst (card_dict example_store_single)). canonical_id k" by code_simp
  have s: "card_dict example_store_single = [(''1'', example_card ''1'' InProgress)]"
    "status (example_card ''1'' InProgress) = InProgress"
    "latest_card_id example_store_single = Some ''1''" by code_simp+
  from interrupt_cleanup[OF d i] s obtain st' where
    "cleanup_interrupted_states example_store_single = (Inr (), st')"
    "card_dict st' = [] \<and> latest_card_id st' = None"
    by blast
  with d i s show ?thesis by (simp add: list_all_iff)
qed

subsection \<open>Fuzzy span locator\<close>

lemma sublist_slice: "sublist (slice s i j) s"
proof -
  have "s = take i s @ (take (j - i) (drop i s) @ drop (j - i) (drop i s))"
    by (simp only: append_take_drop_id)
  then show ?thesis unfolding slice_def sublist_def by blast
qed

text \<open>
  Claim C8 as stated fails: for the target \<open>ab\<close> and the source \<open>xyz\<close> the locator
  returns \<open>ab\<close>, which is not a substring of the source.
\<close>

theorem fuzzy_span_locator_counterexample:
  "fuzzy_match_in_source (Some (\<lambda>t s. None)) ''ab'' ''xyz'' = ''ab'' \<and> \<not> sublist ''ab'' ''xyz''"
  by code_simp

text \<open>
  Claim C8, amended. For every target and source the locator returns a contiguous substring
  of the source or the target itself, unchanged. When the target is a verbatim substring of
  the source it returns the target. When it is not, the locator returns the target in four
  cases: the target is shorter than five characters, the aligner is not available, the
  aligner finds no alignment, or the span it reports is empty. In the one remaining case it
  returns the span \<open>source_text[dest_start:dest_end]\<close> the aligner reports, which is
  not empty and is a contiguous substring of the source.
\<close>

theorem fuzzy_span_locator:
  "(sublist (fuzzy_match_in_source rapidfuzz text_to_match source_text) source_text \<or>
    fuzzy_match_in_source rapidfuzz text_to_match source_text = text_to_match) \<and>
   (sublist text_to_match source_text \<longrightarrow>
      fuzzy_match_in_source rapidfuzz text_to_match source_text = text_to_match) \<and>
   (\<not> sublist text_to_match source_text \<and> length text_to_match < 5 \<longrightarrow>
      fuzzy_match_in_source rapidfuzz text_to_match source_text = text_to_match) \<and>
   (\<not> sublist text_to_match source_text \<and> rapidfuzz = None \<longrightarrow>
      fuzzy_match_in_source rapidfuzz text_to_match source_text = text_to_match) \<and>
   (\<not> sublist text_to_match source_text \<and> rapidfuzz = Some partial_ratio_alignment \<and>
    partial_ratio_alignment text_to_match source_text = None \<longrightarrow>
      fuzzy_match_in_source rapidfuzz text_to_match source_text = text_to_match) \<and>
   (\<not> sublist text_to_match source_text \<and> rapidfuzz = Some partial_ratio_alignment \<and>
    partial_ratio_alignment text_to_match source_text = Some (dest_start, dest_end) \<and>
    slice source_text dest_start dest_end = [] \<longrightarrow>
      fuzzy_match_in_source rapidfuzz text_to_match source_text = text_to_match) \<and>
   (\<not> sublist text_to_match source_text \<and> 5 \<le> length text_to_match \<and>
    rapidfuzz = Some partial_ratio_alignment \<and>
    partial_ratio_alignment text_to_match source_text = Some (dest_start, dest_end) \<and>
    slice source_text dest_start dest_end \<noteq> [] \<longrightarrow>
      fuzzy_match_in_source rapidfuzz text_to_match source_text =
        slice source_text dest_start dest_end \<and>
      fuzzy_match_in_source rapidfuzz text_to_match source_text =
        take (dest_end - dest_start) (drop dest_start source_text) \<and>
      fuzzy_match_in_source rapidfuzz text_to_match source_text \<noteq> [] \<and>
      sublist (fuzzy_match_in_source rapidfuzz text_to_match source_text) source_text)"
proof -
  let ?r = "fuzzy_match_in_source rapidfuzz text_to_match source_text"
  have 1: "sublist ?r source_text \<or> ?r = text_to_match"
    using sublist_slice[of source_text]
    by (auto simp: fuzzy_match_in_source_def Let_def split: option.splits)
  have 2: "sublist text_to_match source_text \<longrightarrow> ?r = text_to_match"
    by (simp add: fuzzy_match_in_source_def)
  have 3: "\<not> sublist text_to_match source_text \<and> length text_to_match < 5 \<longrightarrow>
           ?r = text_to_match"
    by (simp add: fuzzy_match_in_source_def)
  have 4: "\<not> sublist text_to_match source_text \<and> rapidfuzz = None \<longrightarrow> ?r = text_to_match"
    by (simp add: fuzzy_match_in_source_def)
  have 5: "\<not> sublist text_to_match source_text \<and> rapidfuzz = Some partial_ratio_alignment \<and>
    partial_ratio_alignment text_to_match source_text = None \<longrightarrow> ?r = text_to_match"
    by (simp add: fuzzy_match_in_source_def)
  have 6: "\<not> sublist text_to_match source_text \<and> rapidfuzz = Some partial_ratio_alignment \<and>
    partial_ratio_alignment text_to_match source_text = Some (dest_start, dest_end) \<and>
    slice source_text dest_start dest_end = [] \<longrightarrow> ?r = text_to_match"
    by (simp add: fuzzy_match_in_source_def)
  have 7: "\<not> sublist text_to_match source_text \<and> 5 \<le> length text_to_match \<and>
    rapidfuzz = Some partial_ratio_alignment \<and>
    partial_ratio_alignment text_to_match source_text = Some (dest_start, dest_end) \<and>
    slice source_text dest_start dest_end \<noteq> [] \<longrightarrow>
      ?r = slice source_text dest_start dest_end"
    by (simp add: fuzzy_match_in_source_def)
  have 8: "slice source_text dest_start dest_end =
           take (dest_end - dest_start) (drop dest_start source_text)"
    by (simp add: slice_def)
  from 7 8 sublist_slice[of source_text dest_start dest_end]
  have 9: "\<not> sublist text_to_match source_text \<and> 5 \<le> length text_to_match \<and>
    rapidfuzz = Some partial_ratio_alignment \<and>
    partial_ratio_alignment text_to_match source_text = Some (dest_start, dest_end) \<and>
    slice source_text dest_start dest_end \<noteq> [] \<longrightarrow>
      ?r = slice source_text dest_start dest_end \<and>
      ?r = take (dest_end - dest_start) (drop dest_start source_text) \<and>
      ?r \<noteq> [] \<and> sublist ?r source_text"
    by metis
  from 1 2 3 4 5 6 9 show ?thesis by (intro conjI)
qed

theorem fuzzy_span_locator_witness:
  "sublist ''quick'' ''the quick brown fox'' \<and>
   fuzzy_match_in_source (Some example_aligner) ''quick'' ''the quick brown fox'' = ''quick'' \<and>
   \<not> sublist ''qu1ck'' ''the quick brown fox'' \<and> 5 \<le> length ''qu1ck'' \<and>
   example_aligner ''qu1ck'' ''the quick brown fox'' = Some (4, 9) \<and>
   slice ''the quick brown fox'' 4 9 = ''quick'' \<and>
   fuzzy_match_in_source (Some example_aligner) ''qu1ck'' ''the quick brown fox'' = ''quick'' \<and>
   \<not> sublist ''fax'' ''the quick brown fox'' \<and> length ''fax'' < 5 \<and>
   fuzzy_match_in_source (Some example_aligner) ''fax'' ''the quick brown fox'' = ''fax'' \<and>
   fuzzy_match_in_source None ''qu1ck'' ''the quick brown fox'' = ''qu1ck'' \<and>
   \<not> sublist ''qu1ck'' ''a lazy dog'' \<and> example_aligner ''qu1ck'' ''a lazy dog'' = None \<and>
   fuzzy_match_in_source (Some example_aligner) ''qu1ck'' ''a lazy dog'' = ''qu1ck'' \<and>
   slice ''the quick brown fox'' 7 7 = [] \<and>
   fuzzy_match_in_source (Some (\<lambda>t s. Some (7, 7))) ''qu1ck'' ''the quick brown fox'' = ''qu1ck''"
proof -
  let ?src = "''the quick brown fox''"
  have h1: "sublist ''quick'' ?src" by code_simp
  have h2: "\<not> sublist ''fax'' ?src" by code_simp
  have h3: "length ''fax'' < 5" by code_simp
  have h4: "\<not> sublist ''qu1ck'' ?src" by code_simp
  have h5: "5 \<le> length ''qu1ck''" by code_simp
  have h6: "\<not> sublist ''qu1ck'' ''a lazy dog''" by code_simp
  have a1: "example_aligner ''qu1ck'' ?src = Some (4, 9)" by code_simp
  have a2: "example_aligner ''qu1ck'' ''a lazy dog'' = None" by code_simp
  have s1: "slice ?src 4 9 = ''quick''" by code_simp
  have s2: "slice ?src 7 7 = []" by code_simp
  have s3: "slice ?src 4 9 \<noteq> []" by code_simp
  note exact = fuzzy_span_locator[of "Some example_aligner" "''quick''" ?src example_aligner 0 0]
  note short = fuzzy_span_locator[of "Some example_aligner" "''fax''" ?src example_aligner 0 0]
  note span = fuzzy_span_locator[of "Some example_aligner" "''qu1ck''" ?src example_aligner 4 9]
  note unavailable = fuzzy_span_locator[of None "''qu1ck''" ?src example_aligner 0 0]
  note no_span = fuzzy_span_locator[of "Some example_aligner" "''qu1ck''" "''a lazy dog''"
                   example_aligner 0 0]
  note empty_span = fuzzy_span_locator[of "Some (\<lambda>t s. Some (7, 7))" "''qu1ck''" ?src
                   "\<lambda>t s. Some (7, 7)" 7 7]
  have 1: "fuzzy_match_in_source (Some example_aligner) ''quick'' ?src = ''quick''"
    by (rule exact[THEN conjunct2, THEN conjunct1, THEN mp, OF h1])
  have 2: "fuzzy_match_in_source (Some example_aligner) ''fax'' ?src = ''fax''"
    by (rule short[THEN conjunct2, THEN conjunct2, THEN conjunct1, THEN mp, OF conjI[OF h2 h3]])
  have 4: "fuzzy_match_in_source None ''qu1ck'' ?src = ''qu1ck''"
    by (rule unavailable[THEN conjunct2, THEN conjunct2, THEN conjunct2, THEN conjunct1, THEN mp,
                         OF conjI[OF h4 refl]])
  have 5: "fuzzy_match_in_source (Some example_aligner) ''qu1ck'' ''a lazy dog'' = ''qu1ck''"
    by (rule no_span[THEN conjunct2, THEN conjunct2, THEN conjunct2, THEN conjunct2,
                     THEN conjunct1, THEN mp, OF conjI[OF h6 conjI[OF refl a2]]])
  have 6: "fuzzy_match_in_source (Some (\<lambda>t s. Some (7, 7))) ''qu1ck'' ?src = ''qu1ck''"
    by (rule empty_span[THEN conjunct2, THEN conjunct2, THEN conjunct2, THEN conjunct2,
                   THEN conjunct2, THEN conjunct1, THEN mp,
                   OF conjI[OF h4 conjI[OF refl conjI[OF refl s2]]]])
  have "fuzzy_match_in_source (Some example_aligner) ''qu1ck'' ?src = slice ?src 4 9"
    by (rule span[THEN conjunct2, THEN conjunct2, THEN conjunct2, THEN conjunct2,
                  THEN conjunct2, THEN conjunct2, THEN mp, THEN conjunct1,
                  OF conjI[OF h4 conjI[OF h5 conjI[OF refl conjI[OF a1 s3]]]]])
  then have 3: "fuzzy_match_in_source (Some example_aligner) ''qu1ck'' ?src = ''quick''"
    by (simp only: s1)
  show ?thesis
    by (intro conjI) (fact h1 h2 h3 h4 h5 h6 a1 a2 s1 s2 1 2 3 4 5 6)+
qed

subsection \<open>Highlight compositor\<close>

lemma foldl_merge_step: "foldl merge_step (acc @ [cur]) rs = acc @ merge_from cur rs"
proof (induction rs arbitrary: acc cur)
  case Nil
  then show ?case by (cases cur) simp
next
  case (Cons r rs)
  obtain ls le where cur: "cur = (ls, le)" by (cases cur)
  obtain s e where r: "r = (s, e)" by (cases r)
  show ?case
  proof (cases "s \<le> le")
    case True
    then have "merge_step (acc @ [cur]) r = acc @ [(ls, max le e)]"
      by (simp add: merge_step_def cur r)
    with True show ?thesis using Cons.IH[of acc "(ls, max le e)"] by (simp add: cur r)
  next
    case False
    then have "merge_step (acc @ [cur]) r = (acc @ [cur]) @ [(s, e)]"
      by (simp add: merge_step_def cur r)
    with False show ?thesis using Cons.IH[of "acc @ [cur]" "(s, e)"] by (simp add: cur r)
  qed
qed

lemma merge_ranges_eq:
  "ranges \<noteq> [] \<Longrightarrow> merge_ranges ranges = merge_from (hd (sort ranges)) (tl (sort ranges))"
  using foldl_merge_step[of "[]"] by (simp add: merge_ranges_def Let_def)

lemma sorted_fst: "sorted (xs :: (nat \<times> nat) list) \<Longrightarrow> sorted (map fst xs)"
  by (induction xs) (auto simp: less_eq_prod_def)

lemma merge_from_separated:
  assumes "ls < le" "sorted (map fst rs)" "\<forall>(s, e)\<in>set rs. ls \<le> s \<and> s < e" "p \<le> ls"
  shows "separated_from p (merge_from (ls, le) rs)"
  using assms
proof (induction rs arbitrary: ls le p)
  case Nil then show ?case by simp
next
  case (Cons r rs)
  obtain s e where r: "r = (s, e)" by (cases r)
  from Cons.prems have se: "ls \<le> s" "s < e" and srt: "sorted (map fst rs)"
    and ge: "\<forall>(s', e')\<in>set rs. s \<le> s' \<and> s' < e'"
    by (auto simp: r)
  show ?case
  proof (cases "s \<le> le")
    case True
    have "separated_from p (merge_from (ls, max le e) rs)"
      using Cons.prems se ge by (intro Cons.IH) (auto simp: r)
    with True show ?thesis by (simp add: r)
  next
    case False
    have "separated_from (Suc le) (merge_from (s, e) rs)"
      using False se srt ge by (intro Cons.IH) auto
    with False Cons.prems show ?thesis by (simp add: r)
  qed
qed

lemma merge_from_covered:
  assumes "ls < le" "sorted (map fst rs)" "\<forall>(s, e)\<in>set rs. ls \<le> s \<and> s < e"
  shows "covered (merge_from (ls, le) rs) = {ls..<le} \<union> covered rs"
  using assms
proof (induction rs arbitrary: ls le)
  case Nil then show ?case by (simp add: covered_def)
next
  case (Cons r rs)
  obtain s e where r: "r = (s, e)" by (cases r)
  from Cons.prems have se: "ls \<le> s" "s < e" and srt: "sorted (map fst rs)"
    and ge: "\<forall>(s', e')\<in>set rs. s \<le> s' \<and> s' < e'"
    by (auto simp: r)
  have cons: "covered ((s, e) # rs) = {s..<e} \<union> covered rs" by (simp add: covered_def)
  show ?case
  proof (cases "s \<le> le")
    case True
    have "covered (merge_from (ls, max le e) rs) = {ls..<max le e} \<union> covered rs"
      using Cons.prems se ge by (intro Cons.IH) (auto simp: r)
    moreover have "{ls..<max le e} = {ls..<le} \<union> {s..<e}" using True se by auto
    ultimately show ?thesis using True by (simp add: r cons Un_assoc)
  next
    case False
    have "covered (merge_from (s, e) rs) = {s..<e} \<union> covered rs"
      using se srt ge by (intro Cons.IH) auto
    with False show ?thesis by (simp add: r cons covered_def)
  qed
qed

lemma merge_ranges_props:
  assumes ne: "ranges \<noteq> []" and loc: "\<forall>(s, e)\<in>set ranges. s < e \<and> e \<le> n"
  shows "separated_from 0 (merge_ranges ranges)"
    and "covered (merge_ranges ranges) = covered ranges"
    and "\<forall>(s, e)\<in>set (merge_ranges ranges). e \<le> n"
proof -
  define srt where "srt = sort ranges"
  have set_srt: "set srt = set ranges" and sorted_srt: "sorted srt" by (simp_all add: srt_def)
  from ne have "srt \<noteq> []" using set_srt by auto
  then obtain r rs where srt: "srt = r # rs" by (cases srt) auto
  obtain ls le where r: "r = (ls, le)" by (cases r)
  have m: "merge_ranges ranges = merge_from (ls, le) rs"
    using merge_ranges_eq[OF ne] by (simp add: srt_def[symmetric] srt r)
  from sorted_fst[OF sorted_srt] have sf: "sorted (map fst rs)" "\<forall>x\<in>set rs. ls \<le> fst x"
    by (auto simp: srt r)
  from loc set_srt have l1: "ls < le" and l2: "\<forall>(s, e)\<in>set rs. s < e"
    by (auto simp: srt r)
  from sf(2) l2 have l3: "\<forall>(s, e)\<in>set rs. ls \<le> s \<and> s < e" by auto
  show sep: "separated_from 0 (merge_ranges ranges)"
    unfolding m by (rule merge_from_separated[OF l1 sf(1) l3]) simp
  have "covered (merge_ranges ranges) = covered srt"
    unfolding m merge_from_covered[OF l1 sf(1) l3] by (simp add: covered_def srt r)
  then show cov: "covered (merge_ranges ranges) = covered ranges"
    by (simp add: covered_def set_srt)
  have sub: "covered ranges \<subseteq> {..<n}" using loc by (auto simp: covered_def)
  have nonempty: "s < e" if "(s, e) \<in> set rs'" "separated_from p rs'" for s e p rs'
    using that by (induction rs' arbitrary: p) auto
  show "\<forall>(s, e)\<in>set (merge_ranges ranges). e \<le> n"
  proof (intro ballI, clarify)
    fix s e assume in_m: "(s, e) \<in> set (merge_ranges ranges)"
    from nonempty[OF in_m sep] have "s < e" .
    then have "e - 1 \<in> {s..<e}" by auto
    with in_m have "e - 1 \<in> covered (merge_ranges ranges)" by (force simp: covered_def)
    with cov sub have "e - 1 < n" by auto
    with \<open>s < e\<close> show "e \<le> n" by simp
  qed
qed

lemma apply_merged_render:
  assumes "separated_from p rs" "\<forall>(s, e)\<in>set rs. e \<le> length text"
  shows "fold highlight_range (rev rs) text = take p text @ render_from p text rs"
  using assms
proof (induction rs arbitrary: p)
  case Nil then show ?case by simp
next
  case (Cons r rs)
  obtain s e where r: "r = (s, e)" by (cases r)
  from Cons.prems have ps: "p \<le> s" "s < e" "e \<le> length text"
    and sep: "separated_from (Suc e) rs" and bnd: "\<forall>(s, e)\<in>set rs. e \<le> length text"
    by (auto simp: r)
  have sep': "separated_from e rs" using sep by (cases rs) auto
  define rest where "rest = render_from e text rs"
  have ih: "fold highlight_range (rev rs) text = take e text @ rest"
    unfolding rest_def by (rule Cons.IH[OF sep' bnd])
  have "fold highlight_range (rev (r # rs)) text = highlight_range (s, e) (take e text @ rest)"
    by (simp add: ih r)
  also have "\<dots> = take s text @ apply_highlight_with_separator_handling (slice text s e) @ rest"
    using ps by (simp add: highlight_range_def slice_def min_def drop_take)
  finally have step: "fold highlight_range (rev (r # rs)) text =
      take s text @ apply_highlight_with_separator_handling (slice text s e) @ rest" .
  have "take s text = take (p + (s - p)) text" using ps by simp
  also have "\<dots> = take p text @ slice text p s" unfolding slice_def by (rule take_add)
  finally have "take s text = take p text @ slice text p s" .
  with step show ?case by (simp add: r rest_def)
qed

lemma str_find_Some:
  "str_find text sub = Some i \<Longrightarrow> i + length sub \<le> length text \<and> slice text i (i + length sub) = sub"
proof (induction "text" arbitrary: i)
  case Nil
  then show ?case by (simp add: slice_def split: if_splits)
next
  case (Cons c cs)
  show ?case
  proof (cases "prefix sub (c # cs)")
    case True
    with Cons.prems have "i = 0" by simp
    moreover from True obtain r where "c # cs = sub @ r" by (auto simp: prefix_def)
    ultimately show ?thesis by (simp add: slice_def)
  next
    case False
    with Cons.prems obtain j where j: "str_find cs sub = Some j" "i = Suc j" by auto
    from Cons.IH[OF j(1)] show ?thesis by (simp add: j(2) slice_def)
  qed
qed

lemma collect_ranges_located:
  "\<forall>r\<in>set (collect_ranges rapidfuzz text supports). fst r < snd r \<and> snd r \<le> length text"
proof (induction supports)
  case Nil then show ?case by simp
next
  case (Cons a supports)
  define m where "m = fuzzy_match_in_source rapidfuzz a text"
  define here where "here = (if m \<noteq> [] then
         (case str_find text m of Some start \<Rightarrow> [(start, start + length m)] | None \<Rightarrow> [])
       else [])"
  have c: "collect_ranges rapidfuzz text (a # supports) = here @ collect_ranges rapidfuzz text supports"
    unfolding here_def m_def by (simp add: Let_def)
  have "fst r < snd r \<and> snd r \<le> length text" if "r \<in> set here" for r
  proof (cases "str_find text m")
    case None with that show ?thesis unfolding here_def by (cases "m = []") simp_all
  next
    case (Some start)
    have ne: "m \<noteq> []"
    proof
      assume "m = []"
      with that show False by (simp add: here_def)
    qed
    then have "here = [(start, start + length m)]" by (simp add: here_def Some)
    with that have "r = (start, start + length m)" by simp
    with ne str_find_Some[OF Some] show ?thesis by simp
  qed
  with Cons show ?case unfolding c by auto
qed

lemma match_separator_take:
  "match_separator b (take n s) \<noteq> None \<Longrightarrow> match_separator b s \<noteq> None"
proof -
  have "prefix p (take n s) \<Longrightarrow> prefix p s" for p :: string
    by (meson prefix_order.trans take_is_prefix)
  then show "match_separator b (take n s) \<noteq> None \<Longrightarrow> match_separator b s \<noteq> None"
    unfolding match_separator_def by (auto split: if_splits)
qed

lemma re_search_separator_take:
  "re_search_separator b (take n s) \<Longrightarrow> re_search_separator b s"
proof (induction s arbitrary: n b)
  case Nil then show ?case by simp
next
  case (Cons c cs)
  show ?case
  proof (cases n)
    case 0 with Cons.prems show ?thesis by simp
  next
    case (Suc m)
    with Cons.prems have "match_separator b (take n (c # cs)) \<noteq> None \<or> re_search_separator False (take m cs)"
      by simp
    then show ?thesis
      using match_separator_take[of b n "c # cs"] Cons.IH[of False m] by auto
  qed
qed

text \<open>
  Claim C7. For every text and every non-empty list of ranges located in it (each range
  non-empty and within the text, as step 1 of \<open>_apply_highlight_to_string\<close> produces
  them), the merged ranges are in ascending order with no two overlapping or adjacent, and
  cover exactly the positions of the given ranges; wrapping them from the last to the first
  yields the text with every merged range wrapped at its offsets in the original text, so
  no insertion shifts a range still to be wrapped. In particular, for the ranges
  \<open>[0,5)\<close> and \<open>[3,8)\<close> on a text without separator the result is the text with
  one delimiter pair around \<open>[0,8)\<close>.
\<close>

theorem highlight_compositor:
  assumes ne: "ranges \<noteq> []" and loc: "\<forall>(s, e)\<in>set ranges. s < e \<and> e \<le> length text"
  shows "separated_from 0 (merge_ranges ranges) \<and>
     covered (merge_ranges ranges) = covered ranges \<and>
     apply_merged text (merge_ranges ranges) = render_from 0 text (merge_ranges ranges) \<and>
     (ranges = [(0, 5), (3, 8)] \<and> \<not> re_search_separator True text \<longrightarrow>
        apply_merged text (merge_ranges ranges) =
          ''<highlight>'' @ take 8 text @ ''</highlight>'' @ drop 8 text) \<and>
     (ranges = collect_ranges rapidfuzz text support_content_list \<longrightarrow>
        apply_highlight_to_string rapidfuzz text support_content_list =
          render_from 0 text (merge_ranges ranges)) \<and>
     (\<forall>(s, e)\<in>set (collect_ranges rapidfuzz text support_content_list). s < e \<and> e \<le> length text)"
proof -
  note p = merge_ranges_props[OF ne loc]
  have r: "apply_merged text (merge_ranges ranges) = render_from 0 text (merge_ranges ranges)"
    using apply_merged_render[OF p(1) p(3)] by (simp add: apply_merged_def)
  have two: "apply_merged text (merge_ranges ranges) =
          ''<highlight>'' @ take 8 text @ ''</highlight>'' @ drop 8 text"
    if rs: "ranges = [(0, 5), (3, 8)]" and nosep: "\<not> re_search_separator True text"
  proof -
    have m: "merge_ranges [(0, 5), (3, 8)] = [(0 :: nat, 8 :: nat)]" by code_simp
    from nosep have "\<not> re_search_separator True (take 8 text)"
      using re_search_separator_take by blast
    moreover from r have "apply_merged text [(0, 8)] = render_from 0 text [(0, 8)]"
      by (simp add: rs m)
    ultimately show ?thesis
      unfolding rs m
      by (simp add: slice_def apply_highlight_with_separator_handling_def)
  qed
  have c: "apply_highlight_to_string rapidfuzz text support_content_list =
          render_from 0 text (merge_ranges ranges)"
    if "ranges = collect_ranges rapidfuzz text support_content_list"
    using that ne r by (simp add: apply_highlight_to_string_def Let_def)
  have "\<forall>(s, e)\<in>set (collect_ranges rapidfuzz text support_content_list). s < e \<and> e \<le> length text"
    using collect_ranges_located[of rapidfuzz "text" support_content_list] by auto
  with p(1,2) r two c show ?thesis by blast
qed

theorem highlight_compositor_witness:
  "collect_ranges None ''abcdefghij'' [''abcde'', ''defgh''] = [(0, 5), (3, 8)] \<and>
   \<not> re_search_separator True ''abcdefghij'' \<and>
   merge_ranges [(0, 5), (3, 8)] = [(0, 8)] \<and>
   apply_highlight_to_string None ''abcdefghij'' [''abcde'', ''defgh''] =
     ''<highlight>abcdefgh</highlight>ij''"
proof -
  have c: "collect_ranges None ''abcdefghij'' [''abcde'', ''defgh''] = [(0, 5), (3, 8)]"
    by code_simp
  have n: "\<not> re_search_separator True ''abcdefghij''" by code_simp
  have m: "merge_ranges [(0, 5), (3, 8)] = [(0 :: nat, 8 :: nat)]" by code_simp
  have l: "\<forall>(s, e)\<in>set [(0 :: nat, 5 :: nat), (3, 8)]. s < e \<and> e \<le> length ''abcdefghij''" by simp
  have ne: "[(0 :: nat, 5 :: nat), (3, 8)] \<noteq> []" by simp
  note t = highlight_compositor[OF ne l, of None "[''abcde'', ''defgh'']"]
  from t c[symmetric]
  have a: "apply_highlight_to_string None ''abcdefghij'' [''abcde'', ''defgh''] =
          render_from 0 ''abcdefghij'' (merge_ranges [(0, 5), (3, 8)])" by blast
  from t n
  have b: "apply_merged ''abcdefghij'' (merge_ranges [(0, 5), (3, 8)]) =
          ''<highlight>'' @ take 8 ''abcdefghij'' @ ''</highlight>'' @ drop 8 ''abcdefghij''" by blast
  from t
  have d: "apply_merged ''abcdefghij'' (merge_ranges [(0, 5), (3, 8)]) =
          render_from 0 ''abcdefghij'' (merge_ranges [(0, 5), (3, 8)])" by blast
  from a b d have "apply_highlight_to_string None ''abcdefghij'' [''abcde'', ''defgh''] =
     ''<highlight>abcdefgh</highlight>ij''" by simp
  with c n m show ?thesis by simp
qed

subsection \<open>Root extraction\<close>

lemma extract_loop_frame:
  "extract_loop env t n st = (r, st') \<Longrightarrow>
   llm_calls st \<le> llm_calls st' \<and> llm_calls st' \<le> llm_calls st + n \<and>
   trace_failed st' = trace_failed st \<and> heap st' = heap st"
proof (induction n arbitrary: st)
  case 0 then show ?case by auto
next
  case (Suc n)
  let ?st1 = "st\<lparr>llm_calls := Suc (llm_calls st)\<rparr>"
  show ?case
  proof (cases "extraction_attempt env (te_llm env (llm_calls st))")
    case (Retry e)
    with Suc.prems have "extract_loop env t n ?st1 = (r, st')" by (simp add: Let_def)
    from Suc.IH[OF this] show ?thesis by simp
  next
    case (Crash e)
    with Suc.prems show ?thesis by (auto simp: Let_def)
  next
    case (Success p)
    with Suc.prems show ?thesis by (cases p) (auto simp: Let_def)
  qed
qed

lemma extract_loop_exhausted:
  "extract_loop env t n st = (Inl (RuntimeError m), st') \<Longrightarrow>
   llm_calls st' = llm_calls st + n \<and> (\<forall>k<n. is_retry (nth_extraction_attempt env st k))"
proof (induction n arbitrary: st)
  case 0 then show ?case by auto
next
  case (Suc n)
  let ?st1 = "st\<lparr>llm_calls := Suc (llm_calls st)\<rparr>"
  show ?case
  proof (cases "extraction_attempt env (te_llm env (llm_calls st))")
    case (Retry e)
    with Suc.prems have "extract_loop env t n ?st1 = (Inl (RuntimeError m), st')"
      by (simp add: Let_def)
    from Suc.IH[OF this] have c: "llm_calls st' = llm_calls st + Suc n"
      and r: "\<forall>k<n. is_retry (nth_extraction_attempt env ?st1 k)" by auto
    have "is_retry (nth_extraction_attempt env st k)" if "k < Suc n" for k
    proof (cases k)
      case 0 with Retry show ?thesis by (simp add: nth_extraction_attempt_def is_retry_def)
    next
      case (Suc j)
      with that r have "is_retry (nth_extraction_attempt env ?st1 j)" by simp
      then show ?thesis by (simp add: nth_extraction_attempt_def Suc)
    qed
    with c show ?thesis by blast
  next
    case (Crash e)
    with Suc.prems show ?thesis
      by (auto simp: Let_def extraction_attempt_def split: list.splits if_splits option.splits jval.splits sum.splits)
  next
    case (Success p)
    with Suc.prems show ?thesis by (cases p) (auto simp: Let_def)
  qed
qed

lemma extract_loop_success:
  "extract_loop env t n st = (Inr ex, st') \<Longrightarrow>
   \<exists>k<n. llm_calls st' = llm_calls st + Suc k \<and>
     (\<forall>j<k. is_retry (nth_extraction_attempt env st j)) \<and>
     (\<exists>parsed_list reasoning.
        nth_extraction_attempt env st k = Success (parsed_list, reasoning) \<and>
        er_extracted_content_list ex = (if parsed_list = [] then [JStr t] else parsed_list) \<and>
        er_reasoning ex = reasoning)"
proof (induction n arbitrary: st)
  case 0 then show ?case by auto
next
  case (Suc n)
  let ?st1 = "st\<lparr>llm_calls := Suc (llm_calls st)\<rparr>"
  show ?case
  proof (cases "extraction_attempt env (te_llm env (llm_calls st))")
    case (Retry e)
    with Suc.prems have "extract_loop env t n ?st1 = (Inr ex, st')" by (simp add: Let_def)
    from Suc.IH[OF this] obtain k where k: "k < n" "llm_calls st' = llm_calls ?st1 + Suc k"
      "\<forall>j<k. is_retry (nth_extraction_attempt env ?st1 j)"
      "\<exists>parsed_list reasoning.
        nth_extraction_attempt env ?st1 k = Success (parsed_list, reasoning) \<and>
        er_extracted_content_list ex = (if parsed_list = [] then [JStr t] else parsed_list) \<and>
        er_reasoning ex = reasoning" by blast
    have shift: "nth_extraction_attempt env ?st1 j = nth_extraction_attempt env st (Suc j)" for j
      by (simp add: nth_extraction_attempt_def)
    have "is_retry (nth_extraction_attempt env st j)" if "j < Suc k" for j
    proof (cases j)
      case 0 with Retry show ?thesis by (simp add: nth_extraction_attempt_def is_retry_def)
    next
      case (Suc i)
      with that k(3) show ?thesis by (simp add: shift[symmetric])
    qed
    with k(1,2,4) show ?thesis
      unfolding shift by (intro exI[of _ "Suc k"]) simp
  next
    case (Crash e)
    with Suc.prems show ?thesis by (auto simp: Let_def)
  next
    case (Success p)
    obtain parsed_list reasoning where p: "p = (parsed_list, reasoning)" by (cases p)
    with Success Suc.prems have "st' = ?st1"
      "er_extracted_content_list ex = (if parsed_list = [] then [JStr t] else parsed_list)"
      "er_reasoning ex = reasoning"
      by (auto simp: Let_def)
    with Success p show ?thesis
      by (intro exI[of _ 0]) (simp add: nth_extraction_attempt_def)
  qed
qed

lemma extract_loop_all_retry:
  "(\<forall>k<n. is_retry (nth_extraction_attempt env st k)) \<Longrightarrow>
   \<exists>m. extract_loop env t n st = (Inl (RuntimeError m), st\<lparr>llm_calls := llm_calls st + n\<rparr>)"
proof (induction n arbitrary: st)
  case 0 then show ?case by simp
next
  case (Suc n)
  let ?st1 = "st\<lparr>llm_calls := Suc (llm_calls st)\<rparr>"
  from Suc.prems have "is_retry (nth_extraction_attempt env st 0)" by simp
  then obtain e where e: "extraction_attempt env (te_llm env (llm_calls st)) = Retry e"
    by (auto simp: is_retry_def nth_extraction_attempt_def split: attempt.splits)
  have "\<forall>k<n. is_retry (nth_extraction_attempt env ?st1 k)"
    using Suc.prems by (auto simp: nth_extraction_attempt_def)
  from Suc.IH[OF this] e show ?case by (simp add: Let_def)
qed

lemma ensure_list_fails:
  "isl (ensure_list loads v field_name) =
     (case v of JArr _ \<Rightarrow> False
      | JStr s \<Rightarrow> try_parse_stringified_list loads s = None
      | _ \<Rightarrow> True)"
  by (simp add: ensure_list_def split: jval.splits option.splits)

lemma extraction_attempt_retry:
  "is_retry (extraction_attempt env response) =
     (resp_tool_calls response = [] \<or>
      tc_name (hd (resp_tool_calls response)) \<noteq> ''report_extraction_result'' \<or>
      te_json_loads env (tc_arguments (hd (resp_tool_calls response))) = None \<or>
      (\<exists>result. te_json_loads env (tc_arguments (hd (resp_tool_calls response))) = Some (JObj result) \<and>
         isl (ensure_list (te_json_loads env)
                (dict_get_default result ''extracted_content_list'' (JArr []))
                ''extracted_content_list'')))"
  by (auto simp: extraction_attempt_def is_retry_def
        split: list.splits option.splits jval.splits sum.splits)

text \<open>
  The retry loop. A run of root extraction makes at most \<open>max_retries\<close> requests, 3 by
  default. A response is retried exactly when it has no tool call, names another tool
  than \<open>report_extraction_result\<close>, carries arguments that are not JSON, or carries an
  object whose \<open>extracted_content_list\<close> is not made a list by \<open>_ensure_list\<close>:
  a list passes, a string passes iff one of the repair strategies recovers a list from it,
  and every other value fails. The exhaustion error is raised only after
  \<open>max_retries\<close> requests that were all retried, and it is raised whenever the card can
  be read and all of them were retried. A successful run ends at the first response that
  is not retried, each earlier response having used one attempt, and returns the parsed
  list, or the traced fragment as the only snippet when the parsed list is empty.
\<close>

lemma root_extraction_loop:
  assumes run: "extract_support_from_source_card env traced_content cid max_retries st = (r, st')"
  shows "llm_calls st \<le> llm_calls st' \<and> llm_calls st' \<le> llm_calls st + max_retries \<and>
     (\<forall>m. r = Inl (RuntimeError m) \<longrightarrow>
        llm_calls st' = llm_calls st + max_retries \<and>
        (\<forall>k<max_retries. is_retry (nth_extraction_attempt env st k))) \<and>
     (get_card_content env cid = Inr () \<and>
      (\<forall>k<max_retries. is_retry (nth_extraction_attempt env st k)) \<longrightarrow>
        (\<exists>m. r = Inl (RuntimeError m))) \<and>
     (\<forall>ex. r = Inr ex \<longrightarrow>
        (\<exists>k<max_retries. llm_calls st' = llm_calls st + Suc k \<and>
           (\<forall>j<k. is_retry (nth_extraction_attempt env st j)) \<and>
           (\<exists>parsed_list reasoning.
              nth_extraction_attempt env st k = Success (parsed_list, reasoning) \<and>
              er_extracted_content_list ex =
                (if parsed_list = [] then [JStr traced_content] else parsed_list) \<and>
              er_reasoning ex = reasoning))) \<and>
     is_retry (extraction_attempt env response) =
       (resp_tool_calls response = [] \<or>
        tc_name (hd (resp_tool_calls response)) \<noteq> ''report_extraction_result'' \<or>
        te_json_loads env (tc_arguments (hd (resp_tool_calls response))) = None \<or>
        (\<exists>result. te_json_loads env (tc_arguments (hd (resp_tool_calls response))) =
                     Some (JObj result) \<and>
           isl (ensure_list (te_json_loads env)
                  (dict_get_default result ''extracted_content_list'' (JArr []))
                  ''extracted_content_list''))) \<and>
     isl (ensure_list (te_json_loads env) v field_name) =
       (case v of JArr _ \<Rightarrow> False
        | JStr s \<Rightarrow> try_parse_stringified_list (te_json_loads env) s = None
        | _ \<Rightarrow> True) \<and>
     default_max_retries = 3"
proof (cases "get_card_content env cid")
  case (Inl e)
  with run have r: "r = Inl e" "st' = st" by (simp_all add: extract_support_from_source_card_def)
  from Inl have e: "\<forall>m. e \<noteq> RuntimeError m"
    by (auto simp: get_card_content_def get_info_card_def read_info_card_content_def
          split: option.splits sum.splits card_body.splits if_splits)
  from r e Inl show ?thesis
    using extraction_attempt_retry[of env response] ensure_list_fails[of "te_json_loads env" v field_name]
    by (simp add: default_max_retries_def)
next
  case (Inr u)
  with run have loop: "extract_loop env traced_content max_retries st = (r, st')"
    by (simp add: extract_support_from_source_card_def)
  note f = extract_loop_frame[OF loop]
  have ex: "\<forall>m. r = Inl (RuntimeError m) \<longrightarrow>
        llm_calls st' = llm_calls st + max_retries \<and>
        (\<forall>k<max_retries. is_retry (nth_extraction_attempt env st k))"
    using extract_loop_exhausted loop by blast
  have all: "(\<forall>k<max_retries. is_retry (nth_extraction_attempt env st k)) \<longrightarrow>
        (\<exists>m. r = Inl (RuntimeError m))"
    using extract_loop_all_retry[of max_retries env st traced_content] loop by auto
  have su: "\<forall>ex. r = Inr ex \<longrightarrow>
        (\<exists>k<max_retries. llm_calls st' = llm_calls st + Suc k \<and>
           (\<forall>j<k. is_retry (nth_extraction_attempt env st j)) \<and>
           (\<exists>parsed_list reasoning.
              nth_extraction_attempt env st k = Success (parsed_list, reasoning) \<and>
              er_extracted_content_list ex =
                (if parsed_list = [] then [JStr traced_content] else parsed_list) \<and>
              er_reasoning ex = reasoning))"
    using extract_loop_success loop by blast
  from f ex all su show ?thesis
    using extraction_attempt_retry[of env response] ensure_list_fails[of "te_json_loads env" v field_name]
    by (simp add: default_max_retries_def)
qed

lemma root_extraction_loop_example:
  "extract_support_from_source_card (example_env responses_retried) ''alpha beta'' ''3''
     default_max_retries example_trace_state =
     (Inr \<lparr>er_extracted_content_list = [JStr ''alpha beta''], er_reasoning = JStr []\<rparr>,
      example_trace_state\<lparr>llm_calls := 3\<rparr>) \<and>
   is_retry (nth_extraction_attempt (example_env responses_retried) example_trace_state 0) \<and>
   is_retry (nth_extraction_attempt (example_env responses_retried) example_trace_state 1) \<and>
   nth_extraction_attempt (example_env responses_retried) example_trace_state 2 =
     Success ([], JStr []) \<and>
   fst (extract_support_from_source_card (example_env []) ''alpha beta'' ''3''
     default_max_retries example_trace_state) =
     Inl (RuntimeError ''_extract_support_from_source_card failed'')"
proof -
  have run: "extract_support_from_source_card (example_env responses_retried) ''alpha beta'' ''3''
     default_max_retries example_trace_state =
     (Inr \<lparr>er_extracted_content_list = [JStr ''alpha beta''], er_reasoning = JStr []\<rparr>,
      example_trace_state\<lparr>llm_calls := 3\<rparr>)" by code_simp
  have a: "is_retry (nth_extraction_attempt (example_env responses_retried) example_trace_state 0)"
    "is_retry (nth_extraction_attempt (example_env responses_retried) example_trace_state 1)"
    by code_simp+
  have run2: "extract_support_from_source_card (example_env []) ''alpha beta'' ''3''
     default_max_retries example_trace_state =
     (Inl (RuntimeError ''_extract_support_from_source_card failed''),
      example_trace_state\<lparr>llm_calls := 3\<rparr>)" by code_simp
  note t = root_extraction_loop[OF run, of "respond [] []" JNull "[]"]
  from t have e: "\<exists>k<default_max_retries.
      llm_calls (example_trace_state\<lparr>llm_calls := 3\<rparr>) = llm_calls example_trace_state + Suc k \<and>
      (\<forall>j<k. is_retry (nth_extraction_attempt (example_env responses_retried) example_trace_state j))"
    by blast
  have s: "nth_extraction_attempt (example_env responses_retried) example_trace_state 2 =
     Success ([], JStr [])" by code_simp
  from e run a run2 s show ?thesis by simp
qed

text \<open>
  Claim C9. The claim lets root extraction fail only once all retries are used, and the
  method's own description is that it retries when the service returns an invalid format. The
  code does so for a response without a tool call, with another tool, with arguments that are
  not JSON, or with a field that is no list. It misses arguments that are JSON and not an
  object: \<open>result.get\<close> is outside every \<open>try\<close> and raises
  \<open>AttributeError\<close>. With the arguments \<open>[]\<close> in the first response the run
  ends in that exception after one request of the three allowed, where arguments that are
  not JSON are retried.
\<close>

theorem root_extraction_non_object_arguments:
  "extraction_attempt (example_env []) (respond ''report_extraction_result'' ''text'') =
     Retry ''Invalid JSON in arguments'' \<and>
   example_loads ''[]'' = Some (JArr []) \<and>
   extraction_attempt (example_env []) (respond ''report_extraction_result'' ''[]'') =
     Crash (AttributeError ''object has no attribute get'') \<and>
   extract_support_from_source_card (example_env [respond ''report_extraction_result'' ''[]''])
     ''alpha beta'' ''3'' default_max_retries example_trace_state =
     (Inl (AttributeError ''object has no attribute get''),
      example_trace_state\<lparr>llm_calls := 1\<rparr>) \<and>
   default_max_retries = 3"
  by code_simp

subsection \<open>The trace walk\<close>

lemma deepcopy_items_fresh:
  assumes "deepcopy_items memo items h = (copies, h')"
    and "\<forall>(a, a')\<in>set memo. n \<le> a'" and "n \<le> length h"
  shows "prefix h h' \<and> (\<forall>c\<in>set copies. n \<le> c)"
  using assms
proof (induction items arbitrary: memo h copies h')
  case Nil then show ?case by simp
next
  case (Cons a items)
  show ?case
  proof (cases "map_of memo a")
    case (Some a')
    obtain cs hh where r: "deepcopy_items memo items h = (cs, hh)" by (cases "deepcopy_items memo items h")
    with Some Cons.prems(1) have e: "copies = a' # cs" "h' = hh" by simp_all
    from Some have "(a, a') \<in> set memo" by (rule map_of_SomeD)
    with Cons.prems(2) have "n \<le> a'" by auto
    with Cons.IH[OF r Cons.prems(2,3)] e show ?thesis by simp
  next
    case None
    define h1 where "h1 = h @ [if a < length h then h ! a else []]"
    obtain cs hh where r: "deepcopy_items ((a, length h) # memo) items h1 = (cs, hh)"
      by (cases "deepcopy_items ((a, length h) # memo) items h1")
    with None Cons.prems(1) have e: "copies = length h # cs" "h' = hh"
      by (simp_all add: Let_def h1_def)
    have m: "\<forall>(a, a')\<in>set ((a, length h) # memo). n \<le> a'" using Cons.prems(2,3) by auto
    have l: "n \<le> length h1" using Cons.prems(3) by (simp add: h1_def)
    from Cons.IH[OF r m l] have "prefix h1 hh" "\<forall>c\<in>set cs. n \<le> c" by auto
    moreover have "prefix h h1" by (simp add: h1_def)
    ultimately show ?thesis using e Cons.prems(3) by (auto intro: prefix_order.trans)
  qed
qed

lemma highlight_items_frame:
  assumes "highlight_items rf snips items h = (r, h')"
    and "\<forall>a\<in>set items. n \<le> a" and "n \<le> length h"
  shows "take n h' = take n h \<and> length h' = length h"
  using assms
proof (induction items arbitrary: h)
  case Nil then show ?case by simp
next
  case (Cons a items)
  from Cons.prems(2) have na: "n \<le> a" and rest: "\<forall>a\<in>set items. n \<le> a" by auto
  define upd where "upd = (\<lambda>s ss. h[a := AList.update ''snippet''
                           (JStr (apply_highlight_to_string rf s ss)) (h ! a)])"
  have u: "take n (upd s ss) = take n h \<and> length (upd s ss) = length h" for s ss
    using na by (simp add: upd_def)
  consider (skip) "highlight_items rf snips items h = (r, h')"
    | (err) "h' = h"
    | (step) s ss where "highlight_items rf snips items (upd s ss) = (r, h')"
    using Cons.prems(1) unfolding upd_def
    by (auto split: option.splits jval.splits sum.splits if_splits)
  then show ?case
  proof cases
    case skip
    from Cons.IH[OF skip rest Cons.prems(3)] show ?thesis .
  next
    case err then show ?thesis by simp
  next
    case (step s ss)
    have "n \<le> length (upd s ss)" using u Cons.prems(3) by simp
    from Cons.IH[OF step rest this] u show ?thesis by simp
  qed
qed

lemma apply_highlight_to_content_frame:
  assumes "apply_highlight_to_content env main snips st = (r, st')"
  shows "prefix (heap st) (heap st') \<and> llm_calls st' = llm_calls st \<and>
         trace_failed st' = trace_failed st"
proof (cases main)
  case (MStr s)
  with assms show ?thesis
    by (auto simp: apply_highlight_to_content_def split: sum.splits)
next
  case (MList items)
  obtain copies h1 where d: "deepcopy_items [] items (heap st) = (copies, h1)"
    by (cases "deepcopy_items [] items (heap st)")
  obtain res h2 where hl: "highlight_items (te_rapidfuzz env) snips copies h1 = (res, h2)"
    by (cases "highlight_items (te_rapidfuzz env) snips copies h1")
  from assms MList d hl have st': "st' = st\<lparr>heap := h2\<rparr>"
    by (auto simp: apply_highlight_to_content_def split: sum.splits)
  from deepcopy_items_fresh[OF d, of "length (heap st)"]
  have p: "prefix (heap st) h1" and fresh: "\<forall>c\<in>set copies. length (heap st) \<le> c" by auto
  from p have len: "length (heap st) \<le> length h1" by (rule prefix_length_le)
  from highlight_items_frame[OF hl fresh len]
  have "take (length (heap st)) h2 = take (length (heap st)) h1" by simp
  also from p have "\<dots> = heap st" by (auto simp: prefix_def)
  finally have "prefix (heap st) h2" by (metis take_is_prefix)
  with st' show ?thesis by simp
qed

lemma support_loop_frame:
  "support_loop env n st = (r, st') \<Longrightarrow>
   llm_calls st \<le> llm_calls st' \<and> trace_failed st' = trace_failed st \<and> heap st' = heap st"
proof (induction n arbitrary: st)
  case 0 then show ?case by auto
next
  case (Suc n)
  let ?st1 = "st\<lparr>llm_calls := Suc (llm_calls st)\<rparr>"
  show ?case
  proof (cases "support_attempt env (te_llm env (llm_calls st))")
    case (Retry e)
    with Suc.prems have "support_loop env n ?st1 = (r, st')" by (simp add: Let_def)
    from Suc.IH[OF this] show ?thesis by simp
  next
    case (Crash e)
    with Suc.prems show ?thesis by (auto simp: Let_def)
  next
    case (Success p)
    with Suc.prems show ?thesis by (auto simp: Let_def)
  qed
qed

lemma find_support_in_card_frame:
  "find_support_in_card env content ref n st = (r, st') \<Longrightarrow>
   llm_calls st \<le> llm_calls st' \<and> trace_failed st' = trace_failed st \<and> heap st' = heap st"
  using support_loop_frame[of env n st r st']
  by (auto simp: find_support_in_card_def split: sum.splits)

lemma walk_keeps_refl: "walk_keeps st st"
  by (simp add: walk_keeps_def)

lemma walk_keeps_trans: "walk_keeps a b \<Longrightarrow> walk_keeps b c \<Longrightarrow> walk_keeps a c"
  by (auto simp: walk_keeps_def intro: prefix_order.trans)

lemma walk_keeps_flag: "walk_keeps st st' \<Longrightarrow> walk_keeps st (st'\<lparr>trace_failed := True\<rparr>)"
  by (simp add: walk_keeps_def)

lemma find_support_keeps:
  "find_support_in_card env content ref n st = (r, st') \<Longrightarrow> walk_keeps st st'"
  using find_support_in_card_frame[of env content ref n st r st'] by (simp add: walk_keeps_def)

lemma highlight_keeps:
  "apply_highlight_to_content env main snips st = (r, st') \<Longrightarrow> walk_keeps st st'"
  using apply_highlight_to_content_frame[of env main snips st r st'] by (simp add: walk_keeps_def)

lemma trace_keeps:
  "\<forall>r st'. trace_node_recursive d env cid content st = Some (r, st') \<longrightarrow> walk_keeps st st'"
  "\<forall>r st'. trace_predecessors d env content refs found nodes st = Some (r, st') \<longrightarrow> walk_keeps st st'"
proof (induction d env cid content st and d env content refs found nodes st
       rule: trace_node_recursive_trace_predecessors.induct)
  case (1 env cid content_to_trace st)
  then show ?case by simp
next
  case (2 depth env cid content_to_trace st)
  show ?case
  proof (intro allI impI)
    fix r st'
    assume run: "trace_node_recursive (Suc depth) env cid content_to_trace st = Some (r, st')"
    show "walk_keeps st st'"
    proof (cases "get_card_explicit_refs env cid")
      case (Inl e)
      with run show ?thesis by (simp add: walk_keeps_refl)
    next
      case (Inr refs)
      show ?thesis
      proof (cases "refs = []")
        case True
        with Inr run show ?thesis by (simp add: walk_keeps_refl)
      next
        case False
        from run Inr False obtain r2 st2 where
          p: "trace_predecessors depth env content_to_trace refs False [] st = Some (r2, st2)"
          and s: "st' = st2 \<or> st' = st2\<lparr>trace_failed := True\<rparr>"
          by (auto split: option.splits sum.splits prod.splits if_splits)
        from "2.IH"[OF Inr False] p have "walk_keeps st st2" by blast
        with s show ?thesis using walk_keeps_flag by auto
      qed
    qed
  qed
next
  case (3 depth env content_to_trace found_any_support supporting_nodes st)
  then show ?case by (simp add: walk_keeps_refl)
next
  case (4 depth env content_to_trace ref_card_id refs found_any_support supporting_nodes st)
  show ?case
  proof (intro allI impI)
    fix r st'
    assume run: "trace_predecessors depth env content_to_trace (ref_card_id # refs)
                   found_any_support supporting_nodes st = Some (r, st')"
    obtain x y where f: "(x, y) = find_support_in_card env content_to_trace ref_card_id
                                    default_max_retries st"
      by (cases "find_support_in_card env content_to_trace ref_card_id default_max_retries st") auto
    from find_support_keeps[OF f[symmetric]] have k1: "walk_keeps st y" .
    show "walk_keeps st st'"
    proof (cases x)
      case (Inl e)
      with run f[symmetric] have "st' = y" by simp
      with k1 show ?thesis by simp
    next
      case (Inr b)
      show ?thesis
      proof (cases "supporting_snippets b")
        case None
        with run f[symmetric] Inr have
          "trace_predecessors depth env content_to_trace refs found_any_support supporting_nodes y =
             Some (r, st')" by simp
        with "4.IH"(1)[OF f Inr None] have "walk_keeps y st'" by blast
        with k1 show ?thesis by (rule walk_keeps_trans)
      next
        case (Some x2)
        show ?thesis
        proof (cases "get_card_main_content env ref_card_id")
          case (Inl e)
          with run f[symmetric] Inr Some have "st' = y" by simp
          with k1 show ?thesis by simp
        next
          case mc: (Inr ba)
          obtain xa ya where h: "(xa, ya) = apply_highlight_to_content env ba x2 y"
            by (cases "apply_highlight_to_content env ba x2 y") auto
          from highlight_keeps[OF h[symmetric]] k1 have k2: "walk_keeps st ya"
            using walk_keeps_trans by blast
          show ?thesis
          proof (cases xa)
            case (Inl e)
            with run f[symmetric] Inr Some mc h[symmetric] have "st' = ya" by simp
            with k2 show ?thesis by simp
          next
            case hl: (Inr bb)
            show ?thesis
            proof (cases "str_items x2")
              case (Inl e)
              with run f[symmetric] Inr Some mc h[symmetric] hl have "st' = ya" by simp
              with k2 show ?thesis by simp
            next
              case si: (Inr bc)
              show ?thesis
              proof (cases "trace_node_recursive depth env ref_card_id (join_paragraphs bc) ya")
                case None
                with run f[symmetric] Inr Some mc h[symmetric] hl si show ?thesis by simp
              next
                case rec: (Some x2a)
                obtain xb yb where x2a: "(xb, yb) = x2a" by (cases x2a) auto
                from "4.IH"(2)[OF f Inr Some mc h hl si] rec x2a
                have "walk_keeps ya yb" by auto
                with k2 have k3: "walk_keeps st yb" by (rule walk_keeps_trans)
                show ?thesis
                proof (cases xb)
                  case (Inl e)
                  with run f[symmetric] Inr Some mc h[symmetric] hl si rec x2a[symmetric]
                  have "st' = yb" by simp
                  with k3 show ?thesis by simp
                next
                  case ch: (Inr bd)
                  with run f[symmetric] Inr Some mc h[symmetric] hl si rec x2a[symmetric]
                  have "trace_predecessors depth env content_to_trace refs True
                          (supporting_nodes @
                             [TraceNode ref_card_id (Some x2) (Some bb) (Some bd)]) yb =
                        Some (r, st')" by simp
                  with "4.IH"(3)[OF f Inr Some mc h hl si rec x2a ch]
                  have "walk_keeps yb st'" by blast
                  with k3 show ?thesis by (rule walk_keeps_trans)
                qed
              qed
            qed
          qed
        qed
      qed
    qed
  qed
qed


lemma extract_support_keeps:
  "extract_support_from_source_card env content cid n st = (r, st') \<Longrightarrow> walk_keeps st st'"
  using extract_loop_frame[of env content n st r st']
  by (auto simp: extract_support_from_source_card_def walk_keeps_def split: sum.splits)

lemma trace_source_keeps:
  assumes run: "trace_source d env cid content st = Some (r, st')"
  shows "prefix (heap st) (heap st')"
proof -
  let ?st0 = "st\<lparr>trace_failed := False\<rparr>"
  obtain x st1 where
    e: "extract_support_from_source_card env content cid default_max_retries ?st0 = (x, st1)"
    by (cases "extract_support_from_source_card env content cid default_max_retries ?st0")
  from extract_support_keeps[OF e] have k1: "prefix (heap st) (heap st1)"
    by (simp add: walk_keeps_def)
  show ?thesis
  proof (cases x)
    case (Inl err)
    with run e have "st' = st1" by (simp add: trace_source_def)
    with k1 show ?thesis by simp
  next
    case (Inr ex)
    show ?thesis
    proof (cases "get_card_main_content env cid")
      case (Inl err)
      with run e Inr have "st' = st1" by (simp add: trace_source_def)
      with k1 show ?thesis by simp
    next
      case mc: (Inr main)
      obtain y st2 where
        h: "apply_highlight_to_content env main (er_extracted_content_list ex) st1 = (y, st2)"
        by (cases "apply_highlight_to_content env main (er_extracted_content_list ex) st1")
      from highlight_keeps[OF h] k1 have k2: "prefix (heap st) (heap st2)"
        by (auto simp: walk_keeps_def intro: prefix_order.trans)
      from run e Inr mc h consider (stop) "st' = st2"
        | (walk) snippets w where
            "trace_node_recursive d env cid (join_paragraphs snippets) st2 = Some (w, st')"
        by (auto simp: trace_source_def Let_def split: sum.splits option.splits prod.splits)
      then show ?thesis
      proof cases
        case stop with k2 show ?thesis by simp
      next
        case walk
        with trace_keeps(1)[of d env cid "join_paragraphs snippets" st2]
        have "prefix (heap st2) (heap st')" by (auto simp: walk_keeps_def)
        with k2 show ?thesis by (rule prefix_order.trans)
      qed
    qed
  qed
qed


lemma apply_highlight_fresh:
  assumes "apply_highlight_to_content env (MList items) snips st = (Inr (MList copies), st')"
  shows "list_all (\<lambda>c. length (heap st) \<le> c) copies"
proof -
  obtain cs h1 where d: "deepcopy_items [] items (heap st) = (cs, h1)"
    by (cases "deepcopy_items [] items (heap st)")
  with assms have "copies = cs"
    by (auto simp: apply_highlight_to_content_def split: sum.splits prod.splits)
  with deepcopy_items_fresh[OF d, of "length (heap st)"] show ?thesis
    by (simp add: list_all_iff)
qed

lemma stored_items_prefix:
  "prefix h h' \<Longrightarrow> items_allocated h c \<Longrightarrow> stored_items h' c = stored_items h c"
  by (auto simp: stored_items_def items_allocated_def list_all_iff prefix_def nth_append
           split: card_body.splits option.splits)









text \<open>
  Claim C10. Tracing leaves the stored cards as they are. The result items of a search card
  are highlighted in a deep copy: the copies are objects allocated by the call, and every
  object that existed before keeps its value; a string content yields a new string and touches
  no object. So when \<open>trace_source\<close> returns, with a result or with an error, every
  object that existed before the trace is unchanged, and the result items of every card read as
  before.
\<close>

theorem tracing_keeps_stored_content:
  "(trace_source d env cid content st = Some (r, st') \<longrightarrow>
      prefix (heap st) (heap st') \<and>
      (get_info_card env k = Inr c \<and> items_allocated (heap st) c \<longrightarrow>
         stored_items (heap st') c = stored_items (heap st) c)) \<and>
   (apply_highlight_to_content env (MList items) snips st = (Inr (MList copies), st2) \<longrightarrow>
      list_all (\<lambda>a. length (heap st) \<le> a) copies \<and> prefix (heap st) (heap st2)) \<and>
   (apply_highlight_to_content env (MStr s) snips st = (y, st2) \<longrightarrow> st2 = st)"
proof (intro conjI impI)
  assume run: "trace_source d env cid content st = Some (r, st')"
  then show p: "prefix (heap st) (heap st')" by (rule trace_source_keeps)
  assume "get_info_card env k = Inr c \<and> items_allocated (heap st) c"
  with p show "stored_items (heap st') c = stored_items (heap st) c"
    by (simp add: stored_items_prefix)
next
  assume h: "apply_highlight_to_content env (MList items) snips st = (Inr (MList copies), st2)"
  then show "list_all (\<lambda>a. length (heap st) \<le> a) copies" by (rule apply_highlight_fresh)
  from apply_highlight_to_content_frame[OF h] show "prefix (heap st) (heap st2)" by simp
next
  assume "apply_highlight_to_content env (MStr s) snips st = (y, st2)"
  then show "st2 = st"
    by (auto simp: apply_highlight_to_content_def split: sum.splits)
qed

theorem tracing_keeps_stored_content_witness:
  "trace_source 3 (example_env responses_supported) ''3'' ''alpha beta'' example_trace_state =
     Some (Inr \<lparr>trace_status = ''Success'',
                trace_result_tree =
                  TraceNode ''3'' (Some [JStr ''alpha beta''])
                    (Some (MStr ''so <highlight>alpha beta</highlight> holds''))
                    (Some [TraceNode ''2'' (Some [JStr ''alpha beta''])
                             (Some (MStr ''<highlight>alpha beta</highlight>''))
                             (Some [TraceNode ''1'' (Some [JStr ''alpha''])
                                      (Some (MList [1])) (Some [])])])\<rparr>,
           \<lparr>llm_calls = 3, trace_failed = False,
              heap = example_heap @
                [[(''title'', JStr ''A page''), (''url'', JStr ''http://a''),
                  (''snippet'', JStr ''<highlight>alpha</highlight> beta gamma'')]]\<rparr>) \<and>
   get_info_card (example_env responses_supported) ''1'' = Inr example_search_card \<and>
   stored_items (example_heap @
                [[(''title'', JStr ''A page''), (''url'', JStr ''http://a''),
                  (''snippet'', JStr ''<highlight>alpha</highlight> beta gamma'')]])
      example_search_card = example_heap \<and>
   apply_highlight_to_content (example_env responses_supported) (MList [0]) [JStr ''alpha'']
     example_trace_state =
     (Inr (MList [1]),
      example_trace_state\<lparr>heap := example_heap @
                [[(''title'', JStr ''A page''), (''url'', JStr ''http://a''),
                  (''snippet'', JStr ''<highlight>alpha</highlight> beta gamma'')]]\<rparr>) \<and>
   list_all (\<lambda>a. length example_heap \<le> a) [1::nat]"
proof -
  let ?env = "example_env responses_supported"
  let ?h = "example_heap @
                [[(''title'', JStr ''A page''), (''url'', JStr ''http://a''),
                  (''snippet'', JStr ''<highlight>alpha</highlight> beta gamma'')]]"
  let ?st' = "\<lparr>llm_calls = 3, trace_failed = False, heap = ?h\<rparr>"
  let ?res = "\<lparr>trace_status = ''Success'',
                trace_result_tree =
                  TraceNode ''3'' (Some [JStr ''alpha beta''])
                    (Some (MStr ''so <highlight>alpha beta</highlight> holds''))
                    (Some [TraceNode ''2'' (Some [JStr ''alpha beta''])
                             (Some (MStr ''<highlight>alpha beta</highlight>''))
                             (Some [TraceNode ''1'' (Some [JStr ''alpha''])
                                      (Some (MList [1])) (Some [])])])\<rparr>"
  have run: "trace_source 3 ?env ''3'' ''alpha beta'' example_trace_state = Some (Inr ?res, ?st')"
    by code_simp
  have card: "get_info_card ?env ''1'' = Inr example_search_card" by code_simp
  have alloc: "items_allocated (heap example_trace_state) example_search_card" by code_simp
  have before: "stored_items (heap example_trace_state) example_search_card = example_heap"
    by code_simp
  have hl: "apply_highlight_to_content ?env (MList [0]) [JStr ''alpha''] example_trace_state =
              (Inr (MList [1]), example_trace_state\<lparr>heap := ?h\<rparr>)" by code_simp
  note t = tracing_keeps_stored_content[where env = ?env and d = 3 and cid = "''3''"
             and content = "''alpha beta''" and st = example_trace_state and r = "Inr ?res"
             and st' = ?st' and k = "''1''" and c = example_search_card and items = "[0]"
             and snips = "[JStr ''alpha'']" and copies = "[1]"
             and ?st2.0 = "example_trace_state\<lparr>heap := ?h\<rparr>"]
  from t run card alloc have "stored_items (heap ?st') example_search_card =
                              stored_items (heap example_trace_state) example_search_card"
    by blast
  with before have same: "stored_items ?h example_search_card = example_heap" by simp
  from t hl have fresh: "list_all (\<lambda>a. length (heap example_trace_state) \<le> a) [1::nat]"
    by blast
  have "heap example_trace_state = example_heap" by (simp add: example_trace_state_def)
  with fresh have "list_all (\<lambda>a. length example_heap \<le> a) [1::nat]" by simp
  with run card same hl show ?thesis by blast
qed

end
